theory Spec2Isabelle
  imports Main "HOL-Library.Multiset"
begin

section \<open>Python values shared by the scrapers\<close>

text \<open>
  The exceptions the modelled code can meet. \<open>ServiceError\<close> stands for any exception
  of the text-generation client (transport failure, blocked response), \<open>WebDriverError\<close>
  for any exception of the browser driver.
\<close>

datatype py_error =
  AttributeError | TypeError | NameError | JSONDecodeError | ServiceError | WebDriverError

text \<open>
  What \<open>json.loads\<close> can return. A float is kept as mantissa and binary exponent; only
  its truth value is ever observed. An object is an association list in document order.
\<close>

datatype json =
  JNull
  | JBool bool
  | JInt int
  | JFloat int int
  | JStr string
  | JArr "json list"
  | JObj "(string \<times> json) list"

text \<open>Python truthiness (\<open>if x:\<close>, \<open>not x\<close>).\<close>

fun truthy :: "json \<Rightarrow> bool" where
  "truthy JNull = False"
| "truthy (JBool b) = b"
| "truthy (JInt i) = (i \<noteq> 0)"
| "truthy (JFloat m e) = (m \<noteq> 0)"
| "truthy (JStr s) = (s \<noteq> [])"
| "truthy (JArr xs) = (xs \<noteq> [])"
| "truthy (JObj kvs) = (kvs \<noteq> [])"

text \<open>\<open>d.get(k, default)\<close> on a dict.\<close>

definition dict_get :: "(string \<times> json) list \<Rightarrow> string \<Rightarrow> json \<Rightarrow> json" where
  "dict_get kvs k d = (case map_of kvs k of None \<Rightarrow> d | Some v \<Rightarrow> v)"

text \<open>\<open>c.get\<close> and \<open>c.items\<close> exist on a dict only; on anything else the attribute
  access raises.\<close>

definition fields_of :: "json \<Rightarrow> py_error + (string \<times> json) list" where
  "fields_of c = (case c of JObj kvs \<Rightarrow> Inr kvs | _ \<Rightarrow> Inl AttributeError)"

text \<open>The slice \<open>xs[-n:]\<close>.\<close>

definition last_n :: "nat \<Rightarrow> 'a list \<Rightarrow> 'a list" where
  "last_n n xs = drop (length xs - n) xs"

text \<open>
  \<open>str.startswith\<close>, and what \<open>str.lower\<close> and \<open>str.strip\<close> do to ASCII text. The
  two are parameters of the models below, since Python folds and strips Unicode text;
  the ASCII functions serve the example runs, whose texts are ASCII.
\<close>

definition starts_with :: "string \<Rightarrow> string \<Rightarrow> bool" where
  "starts_with p s = (take (length p) s = p)"

definition lower_char :: "char \<Rightarrow> char" where
  "lower_char c =
     (case map_of (zip ''ABCDEFGHIJKLMNOPQRSTUVWXYZ'' ''abcdefghijklmnopqrstuvwxyz'') c of
        None \<Rightarrow> c | Some l \<Rightarrow> l)"

definition ascii_lower :: "string \<Rightarrow> string" where
  "ascii_lower s = map lower_char s"

definition is_space :: "char \<Rightarrow> bool" where
  "is_space c =
     (c \<in> set [CHR '' '', CHR 0x09, CHR 0x0A, CHR 0x0B, CHR 0x0C, CHR 0x0D,
               CHR 0x1C, CHR 0x1D, CHR 0x1E, CHR 0x1F])"

definition ascii_strip :: "string \<Rightarrow> string" where
  "ascii_strip s = rev (dropWhile is_space (rev (dropWhile is_space s)))"

text \<open>
  How a save \<open>with open(path, 'w') as f: json.dump(data, f)\<close> inside its \<open>try\<close> ends:
  \<open>open\<close> raises; \<open>json.dump\<close> raises after that many chunks have been written to the
  open file (a string with a lone surrogate, which \<open>json.loads\<close> accepts, cannot be
  encoded); or the dump completes.
\<close>

datatype save_end = Open_raises | Dump_raises nat | Completes

section \<open>The PDF extractor (Honolulu Community College, pdf_extractor.py)\<close>

subsection \<open>Pages, prompts and the outside world\<close>

text \<open>One entry of \<open>pages_text\<close>: the dict with the keys \<open>page_number\<close> and \<open>text\<close>.\<close>

record page =
  page_number :: int
  page_text_of :: string

text \<open>
  A prompt is kept as the values that are formatted into its text: the extraction prompt
  holds the page, the context pages, the last five recent courses and the overlap
  courses; the repair prompt holds the courses to fix, the last three context pages and
  the last five recent courses.
\<close>

datatype prompt =
  Extract_prompt page "page list" "json list" "json list"
  | Fix_prompt "json list" "page list" "json list"

text \<open>What a run does to the outside, in order: a generation call, a sleep (in seconds),
  a file written in full (its path and the data dumped into it).\<close>

datatype event = Generate prompt | Sleep nat | Wrote string json

text \<open>An object bound to a name of the module.\<close>

datatype py_object = Py_function string | Py_module string | Py_class string

text \<open>
  The libraries and services the module calls, as parameters: the environment variable,
  the PDF reader (the text of every page, or \<open>None\<close> when no text can be read),
  \<open>generate_content(prompt).text\<close> by call index (\<open>None\<close> when the call raises),
  \<open>json.loads\<close> (\<open>None\<close> for \<open>JSONDecodeError\<close>), \<open>str.lower\<close>, \<open>str.strip\<close>,
  \<open>str\<close> of a value that is not a string, the chunks in which \<open>json.dump\<close> writes the
  data to the file, how the n-th save of the run ends,
  the clock, \<open>os.path.basename\<close>, and the call of an object on one argument (the
  truth value of what it returns, or the exception).
\<close>

record pdf_env =
  api_key :: "string option"
  pdf_texts :: "string \<Rightarrow> string list option"
  generate_content :: "nat \<Rightarrow> prompt \<Rightarrow> string option"
  json_loads :: "string \<Rightarrow> json option"
  str_lower :: "string \<Rightarrow> string"
  str_strip :: "string \<Rightarrow> string"
  py_repr :: "json \<Rightarrow> string"
  json_dump :: "json \<Rightarrow> string list"
  save_ends :: "nat \<Rightarrow> save_end"
  now_iso :: "nat \<Rightarrow> string"
  basename :: "string \<Rightarrow> string"
  call_fn :: "py_object \<Rightarrow> json \<Rightarrow> py_error + bool"

text \<open>
  What a run has done so far: the number of generation calls, the events in order, the
  files on disk, and the number of saves made.
\<close>

record pstate =
  calls :: nat
  trace :: "event list"
  files :: "string \<Rightarrow> string option"
  saves :: nat

subsection \<open>create_gemini_prompt\<close>

text \<open>
  Formatting a value into an f-string never raises, so the prompt builder raises only
  where it calls \<open>course.get\<close> on a value that is no dict, or slices a \<open>course_desc\<close>
  that is neither a string nor a list (\<open>course.get('course_desc', 'N/A')[:200]\<close>; on
  a dict the slice raises \<open>TypeError\<close> or, from Python 3.12 on, \<open>KeyError\<close>, which
  the caller treats alike). Each function returns the first exception its loop raises.
\<close>

definition sliceable :: "json \<Rightarrow> bool" where
  "sliceable v = (case v of JStr s \<Rightarrow> True | JArr xs \<Rightarrow> True | _ \<Rightarrow> False)"

fun recent_lines :: "json list \<Rightarrow> py_error option" where
  "recent_lines [] = None"
| "recent_lines (course # rest) =
     (case fields_of course of Inl e \<Rightarrow> Some e | Inr kvs \<Rightarrow> recent_lines rest)"

fun overlap_lines :: "json list \<Rightarrow> py_error option" where
  "overlap_lines [] = None"
| "overlap_lines (course # rest) =
     (case fields_of course of
        Inl e \<Rightarrow> Some e
      | Inr kvs \<Rightarrow>
          if sliceable (dict_get kvs ''course_desc'' (JStr ''N/A''))
          then overlap_lines rest else Some TypeError)"

definition create_gemini_prompt ::
  "page \<Rightarrow> page list \<Rightarrow> json list \<Rightarrow> json list option \<Rightarrow> py_error + prompt" where
  "create_gemini_prompt page_text context_pages recent_courses overlap_courses =
     (let overlap = (case overlap_courses of None \<Rightarrow> [] | Some ov \<Rightarrow> ov) in
      case recent_lines (last_n 5 recent_courses) of
        Some e \<Rightarrow> Inl e
      | None \<Rightarrow>
          (case overlap_lines overlap of
             Some e \<Rightarrow> Inl e
           | None \<Rightarrow>
               Inr (Extract_prompt page_text context_pages (last_n 5 recent_courses) overlap)))"

subsection \<open>validate_and_fix_courses\<close>

definition placeholder_tokens :: "string list" where
  "placeholder_tokens = [''unknown'', ''null'', ''n/a'']"

definition py_str :: "pdf_env \<Rightarrow> json \<Rightarrow> string" where
  "py_str w v = (case v of JStr s \<Rightarrow> s | _ \<Rightarrow> py_repr w v)"

text \<open>\<open>value is None or value == "" or str(value).lower() in ["unknown", "null", "n/a"]\<close>\<close>

definition is_placeholder :: "pdf_env \<Rightarrow> json \<Rightarrow> bool" where
  "is_placeholder w v =
     (v = JNull \<or> v = JStr [] \<or> str_lower w (py_str w v) \<in> set placeholder_tokens)"

text \<open>The scan for a value to fix: it stops at the first one, and \<open>course.items()\<close>
  raises on a course that is no dict.\<close>

fun needs_fixing :: "pdf_env \<Rightarrow> json list \<Rightarrow> py_error + bool" where
  "needs_fixing w [] = Inr False"
| "needs_fixing w (course # rest) =
     (case fields_of course of
        Inl e \<Rightarrow> Inl e
      | Inr kvs \<Rightarrow>
          if list_ex (\<lambda>(key, v). is_placeholder w v) kvs then Inr True
          else needs_fixing w rest)"

text \<open>The clean-up of a response: strip, then drop a Markdown code fence
  (\<open>text[7:-3]\<close> after \<open>```json\<close>, \<open>text[3:-3]\<close> after \<open>```\<close>).\<close>

definition clean_response :: "pdf_env \<Rightarrow> string \<Rightarrow> string" where
  "clean_response w t =
     (let s = str_strip w t in
      if starts_with ''```json'' s then str_strip w (drop 7 (take (length s - 3) s))
      else if starts_with ''```'' s then str_strip w (drop 3 (take (length s - 3) s))
      else s)"

definition record_call :: "prompt \<Rightarrow> pstate \<Rightarrow> pstate" where
  "record_call p st = st\<lparr>calls := calls st + 1, trace := trace st @ [Generate p]\<rparr>"

definition validate_and_fix_courses ::
  "pdf_env \<Rightarrow> json list \<Rightarrow> page list \<Rightarrow> json list \<Rightarrow> pstate \<Rightarrow> (py_error + json) \<times> pstate"
  where
  "validate_and_fix_courses w courses_json context_pages recent_courses st =
     (if courses_json = [] then (Inr (JArr courses_json), st)
      else
        case needs_fixing w courses_json of
          Inl e \<Rightarrow> (Inl e, st)
        | Inr False \<Rightarrow> (Inr (JArr courses_json), st)
        | Inr True \<Rightarrow>
            (let p = Fix_prompt courses_json (last_n 3 context_pages) (last_n 5 recent_courses);
                 st1 = record_call p st
             in case generate_content w (calls st) p of
                  None \<Rightarrow> (Inr (JArr courses_json), st1)
                | Some t \<Rightarrow>
                    (case json_loads w (clean_response w t) of
                       None \<Rightarrow> (Inr (JArr courses_json), st1)
                     | Some fixed_courses \<Rightarrow> (Inr fixed_courses, st1))))"

subsection \<open>extract_courses_from_page\<close>

text \<open>\<open>len(courses)\<close> in the success message raises on a value without a length.\<close>

definition has_len :: "json \<Rightarrow> bool" where
  "has_len v = (case v of JArr xs \<Rightarrow> True | JStr s \<Rightarrow> True | JObj kvs \<Rightarrow> True | _ \<Rightarrow> False)"

text \<open>\<open>if not isinstance(courses, list): courses = [courses] if courses else []\<close>\<close>

definition as_course_list :: "json \<Rightarrow> json list" where
  "as_course_list parsed = (case parsed of JArr xs \<Rightarrow> xs | v \<Rightarrow> if truthy v then [v] else [])"

text \<open>The body of the \<open>try\<close>: the exception it raises, or the courses it returns.
  Creating the \<open>GenerativeModel\<close> object is taken not to raise; the messages printed
  are left out.\<close>

definition attempt_once ::
  "pdf_env \<Rightarrow> page \<Rightarrow> page list \<Rightarrow> json list \<Rightarrow> json list option \<Rightarrow> pstate
     \<Rightarrow> (py_error + json) \<times> pstate" where
  "attempt_once w page_text context_pages recent_courses overlap_courses st =
     (case create_gemini_prompt page_text context_pages recent_courses overlap_courses of
        Inl e \<Rightarrow> (Inl e, st)
      | Inr p \<Rightarrow>
          (let st1 = record_call p st in
           case generate_content w (calls st) p of
             None \<Rightarrow> (Inl ServiceError, st1)
           | Some t \<Rightarrow>
               (case json_loads w (clean_response w t) of
                  None \<Rightarrow> (Inl JSONDecodeError, st1)
                | Some parsed \<Rightarrow>
                    (let courses = as_course_list parsed
                     in case validate_and_fix_courses w courses context_pages recent_courses st1 of
                          (Inl e, st2) \<Rightarrow> (Inl e, st2)
                        | (Inr fixed, st2) \<Rightarrow>
                            if has_len fixed then (Inr fixed, st2) else (Inl TypeError, st2)))))"

text \<open>
  The loop \<open>for attempt in range(max_retries)\<close>, over the attempt numbers still to run.
  A \<open>JSONDecodeError\<close> is followed by \<open>sleep(1)\<close>, any other exception by
  \<open>sleep(2)\<close>; the last attempt returns the empty list instead of sleeping.
\<close>

fun retry_loop ::
  "pdf_env \<Rightarrow> page \<Rightarrow> page list \<Rightarrow> json list \<Rightarrow> json list option \<Rightarrow> int \<Rightarrow> nat list
     \<Rightarrow> pstate \<Rightarrow> json \<times> pstate" where
  "retry_loop w page_text context_pages recent_courses overlap_courses max_retries [] st =
     (JArr [], st)"
| "retry_loop w page_text context_pages recent_courses overlap_courses max_retries
     (attempt # later) st =
     (case attempt_once w page_text context_pages recent_courses overlap_courses st of
        (Inr courses, st1) \<Rightarrow> (courses, st1)
      | (Inl e, st1) \<Rightarrow>
          if int attempt = max_retries - 1 then (JArr [], st1)
          else retry_loop w page_text context_pages recent_courses overlap_courses max_retries
                 later
                 (st1\<lparr>trace := trace st1 @ [Sleep (if e = JSONDecodeError then 1 else 2)]\<rparr>))"

definition extract_courses_from_page ::
  "pdf_env \<Rightarrow> page \<Rightarrow> page list \<Rightarrow> json list \<Rightarrow> json list option \<Rightarrow> int \<Rightarrow> pstate
     \<Rightarrow> json \<times> pstate" where
  "extract_courses_from_page w page_text context_pages recent_courses overlap_courses
     max_retries st =
     retry_loop w page_text context_pages recent_courses overlap_courses max_retries
       [0..<nat max_retries] st"

subsection \<open>deduplicate_courses\<close>

text \<open>\<open>f"{course.get('course_prefix', '')}-{course.get('course_number', '')}"\<close>\<close>

definition course_key :: "pdf_env \<Rightarrow> json \<Rightarrow> py_error + string" where
  "course_key w course =
     (case fields_of course of
        Inl e \<Rightarrow> Inl e
      | Inr kvs \<Rightarrow>
          Inr (py_str w (dict_get kvs ''course_prefix'' (JStr [])) @ ''-''
               @ py_str w (dict_get kvs ''course_number'' (JStr []))))"

fun dedup_loop ::
  "pdf_env \<Rightarrow> json list \<Rightarrow> string set \<Rightarrow> json list \<Rightarrow> py_error + json list" where
  "dedup_loop w [] seen unique_courses = Inr unique_courses"
| "dedup_loop w (course # rest) seen unique_courses =
     (case course_key w course of
        Inl e \<Rightarrow> Inl e
      | Inr k \<Rightarrow>
          if k \<notin> seen then dedup_loop w rest (insert k seen) (unique_courses @ [course])
          else dedup_loop w rest seen unique_courses)"

definition deduplicate_courses :: "pdf_env \<Rightarrow> json list \<Rightarrow> py_error + json list" where
  "deduplicate_courses w courses = dedup_loop w courses {} []"

subsection \<open>Writing a file\<close>

text \<open>
  \<open>with open(path, 'w') as f: json.dump(data, f)\<close> as the operations it performs on
  the files: mode \<open>'w'\<close> creates the file or truncates it, and every chunk is then
  appended to it. A save that stops early, because \<open>json.dump\<close> raises or because the
  process is killed, has performed a prefix of them.
\<close>

datatype fs_op = Open_w string | Write string string

fun fs_step :: "fs_op \<Rightarrow> (string \<Rightarrow> string option) \<Rightarrow> (string \<Rightarrow> string option)" where
  "fs_step (Open_w path) fs = fs(path \<mapsto> [])"
| "fs_step (Write path s) fs = fs(path \<mapsto> (case fs path of None \<Rightarrow> s | Some old \<Rightarrow> old @ s))"

definition write_ops :: "string \<Rightarrow> string list \<Rightarrow> fs_op list" where
  "write_ops path chunks = Open_w path # map (Write path) chunks"

definition run_ops :: "fs_op list \<Rightarrow> (string \<Rightarrow> string option) \<Rightarrow> (string \<Rightarrow> string option)" where
  "run_ops ops fs = fold fs_step ops fs"

text \<open>The files when the write to \<open>path\<close> stops after \<open>k\<close> of its operations: what a
  dump that raises there leaves, and what a kill of the process at that moment leaves.\<close>

definition stopped_after ::
  "nat \<Rightarrow> string \<Rightarrow> string list \<Rightarrow> (string \<Rightarrow> string option)
     \<Rightarrow> (string \<Rightarrow> string option)" where
  "stopped_after k path chunks fs = run_ops (take k (write_ops path chunks)) fs"

text \<open>
  The \<open>try\<close> around the write, which covers \<open>open\<close> and \<open>json.dump\<close>: \<open>True\<close> when
  the file was written in full; \<open>False\<close> when \<open>open\<close> raised, or when the dump raised
  and the \<open>with\<close> closed the file on the chunks written so far.
\<close>

definition write_json :: "pdf_env \<Rightarrow> json \<Rightarrow> string \<Rightarrow> pstate \<Rightarrow> bool \<times> pstate" where
  "write_json w output_data output_path st =
     (case save_ends w (saves st) of
        Open_raises \<Rightarrow> (False, st\<lparr>saves := saves st + 1\<rparr>)
      | Dump_raises k \<Rightarrow>
          (False, st\<lparr>files := stopped_after (Suc k) output_path (json_dump w output_data) (files st),
                       saves := saves st + 1\<rparr>)
      | Completes \<Rightarrow>
          (True, st\<lparr>files := run_ops (write_ops output_path (json_dump w output_data)) (files st),
                      saves := saves st + 1,
                      trace := trace st @ [Wrote output_path output_data]\<rparr>))"

subsection \<open>save_incremental_results\<close>

definition checkpoint_data ::
  "pdf_env \<Rightarrow> json list \<Rightarrow> string \<Rightarrow> int \<Rightarrow> int \<Rightarrow> pstate \<Rightarrow> json" where
  "checkpoint_data w all_courses pdf_path current_page total_pages st =
     JObj [(''metadata'',
            JObj [(''source_file'', JStr (basename w pdf_path)),
                  (''total_pages'', JInt total_pages),
                  (''pages_processed'', JInt current_page),
                  (''total_courses'', JInt (int (length all_courses))),
                  (''extraction_timestamp'', JStr (now_iso w (saves st))),
                  (''extractor'', JStr ''Gemini LLM''),
                  (''model'', JStr ''gemini-1.5-flash''),
                  (''status'',
                   JStr (if current_page < total_pages then ''in_progress'' else ''complete''))]),
           (''courses'', JArr all_courses)]"

definition save_incremental_results ::
  "pdf_env \<Rightarrow> json list \<Rightarrow> string \<Rightarrow> string \<Rightarrow> int \<Rightarrow> int \<Rightarrow> pstate \<Rightarrow> bool \<times> pstate" where
  "save_incremental_results w all_courses pdf_path output_path current_page total_pages st =
     write_json w (checkpoint_data w all_courses pdf_path current_page total_pages st)
       output_path st"

subsection \<open>extract_courses_from_pdf\<close>

definition extract_text_from_pdf :: "pdf_env \<Rightarrow> string \<Rightarrow> page list option" where
  "extract_text_from_pdf w pdf_path =
     (case pdf_texts w pdf_path of
        None \<Rightarrow> None
      | Some ts \<Rightarrow>
          Some (map (\<lambda>(page_num, t). \<lparr>page_number = int page_num + 1, page_text_of = t\<rparr>)
                  (enumerate 0 ts)))"

text \<open>What \<open>list.extend(x)\<close> appends: the elements of a list, the characters of a
  string, the keys of a dict; other values are not iterable.\<close>

definition iterate :: "json \<Rightarrow> py_error + json list" where
  "iterate v =
     (case v of
        JArr xs \<Rightarrow> Inr xs
      | JStr s \<Rightarrow> Inr (map (\<lambda>c. JStr [c]) s)
      | JObj kvs \<Rightarrow> Inr (map (\<lambda>(k, x). JStr k) kvs)
      | _ \<Rightarrow> Inl TypeError)"

record pdf_locals =
  all_courses :: "json list"
  context_pages :: "page list"
  recent_courses :: "json list"

text \<open>The \<open>if courses:\<close> block of the page loop.\<close>

definition add_courses :: "pdf_env \<Rightarrow> json \<Rightarrow> pdf_locals \<Rightarrow> py_error + pdf_locals" where
  "add_courses w courses v =
     (if truthy courses then
        (case iterate courses of
           Inl e \<Rightarrow> Inl e
         | Inr items \<Rightarrow>
             (case deduplicate_courses w (all_courses v @ items) of
                Inl e \<Rightarrow> Inl e
              | Inr unique_courses \<Rightarrow>
                  Inr (v\<lparr>all_courses := unique_courses,
                         recent_courses := recent_courses v @ items\<rparr>)))
      else Inr v)"

text \<open>One round of the page loop, for page \<open>i\<close> of \<open>total_pages\<close>; \<open>max_retries\<close> is left at
  its default 3.\<close>

definition process_page ::
  "pdf_env \<Rightarrow> string \<Rightarrow> string \<Rightarrow> int \<Rightarrow> int \<times> page \<Rightarrow> pdf_locals \<Rightarrow> pstate
     \<Rightarrow> (py_error + pdf_locals) \<times> pstate" where
  "process_page w pdf_path output_path total_pages = (\<lambda>(i, page_text) v st.
     (let overlap_courses =
            (if 2 \<le> length (all_courses v) then Some (last_n 2 (all_courses v)) else None);
          context_for_page = last_n 3 (context_pages v);
          recent_for_page = last_n 5 (recent_courses v)
      in case extract_courses_from_page w page_text context_for_page recent_for_page
                overlap_courses 3 st of
           (courses, st1) \<Rightarrow>
             (case add_courses w courses v of
                Inl e \<Rightarrow> (Inl e, st1)
              | Inr v1 \<Rightarrow>
                  (let v2 = v1\<lparr>context_pages := context_pages v1 @ [page_text]\<rparr>;
                       v3 = v2\<lparr>context_pages :=
                                  (if 3 < length (context_pages v2)
                                   then last_n 3 (context_pages v2) else context_pages v2),
                                recent_courses :=
                                  (if 5 < length (recent_courses v2)
                                   then last_n 5 (recent_courses v2) else recent_courses v2)\<rparr>
                   in case save_incremental_results w (all_courses v3) pdf_path output_path
                             i total_pages st1 of
                        (saved, st2) \<Rightarrow> (Inr v3, st2)))))"

fun pages_loop ::
  "pdf_env \<Rightarrow> string \<Rightarrow> string \<Rightarrow> int \<Rightarrow> (int \<times> page) list \<Rightarrow> pdf_locals \<Rightarrow> pstate
     \<Rightarrow> (py_error + pdf_locals) \<times> pstate" where
  "pages_loop w pdf_path output_path total_pages [] v st = (Inr v, st)"
| "pages_loop w pdf_path output_path total_pages (numbered_page # rest) v st =
     (case process_page w pdf_path output_path total_pages numbered_page v st of
        (Inl e, st1) \<Rightarrow> (Inl e, st1)
      | (Inr v1, st1) \<Rightarrow> pages_loop w pdf_path output_path total_pages rest v1 st1)"

text \<open>
  The names bound at module level (imports and function definitions). A name that is
  neither here nor a builtin raises \<open>NameError\<close> when it is evaluated.
\<close>

definition module_globals :: "(string \<times> py_object) list" where
  "module_globals =
     [(''json'', Py_module ''json''), (''os'', Py_module ''os''),
      (''genai'', Py_module ''google.generativeai''), (''datetime'', Py_class ''datetime''),
      (''time'', Py_module ''time''), (''re'', Py_module ''re''),
      (''extract_text_from_pdf'', Py_function ''extract_text_from_pdf''),
      (''create_gemini_prompt'', Py_function ''create_gemini_prompt''),
      (''validate_and_fix_courses'', Py_function ''validate_and_fix_courses''),
      (''extract_courses_from_page'', Py_function ''extract_courses_from_page''),
      (''deduplicate_courses'', Py_function ''deduplicate_courses''),
      (''save_incremental_results'', Py_function ''save_incremental_results''),
      (''extract_courses_from_pdf'', Py_function ''extract_courses_from_pdf''),
      (''main'', Py_function ''main'')]"

definition load_global :: "string \<Rightarrow> py_error + py_object" where
  "load_global name =
     (case map_of module_globals name of None \<Rightarrow> Inl NameError | Some obj \<Rightarrow> Inr obj)"

text \<open>The final loop: \<open>if validate_and_fix_course(course): validated_courses.append(course)\<close>.\<close>

fun final_validation :: "pdf_env \<Rightarrow> json list \<Rightarrow> py_error + json list" where
  "final_validation w [] = Inr []"
| "final_validation w (course # rest) =
     (case load_global ''validate_and_fix_course'' of
        Inl e \<Rightarrow> Inl e
      | Inr f \<Rightarrow>
          (case call_fn w f course of
             Inl e \<Rightarrow> Inl e
           | Inr keep \<Rightarrow>
               (case final_validation w rest of
                  Inl e \<Rightarrow> Inl e
                | Inr validated \<Rightarrow> Inr (if keep then course # validated else validated))))"

definition final_data :: "pdf_env \<Rightarrow> json list \<Rightarrow> string \<Rightarrow> int \<Rightarrow> pstate \<Rightarrow> json" where
  "final_data w validated_courses pdf_path total_pages st =
     JObj [(''metadata'',
            JObj [(''source_file'', JStr (basename w pdf_path)),
                  (''total_pages'', JInt total_pages),
                  (''total_courses'', JInt (int (length validated_courses))),
                  (''extraction_timestamp'', JStr (now_iso w (saves st))),
                  (''extractor'', JStr ''Gemini LLM''),
                  (''model'', JStr ''gemini-1.5-flash''),
                  (''status'', JStr ''complete'')]),
           (''courses'', JArr validated_courses)]"

text \<open>The function returns \<open>True\<close> or \<open>False\<close>, or an exception leaves it.\<close>

definition extract_courses_from_pdf ::
  "pdf_env \<Rightarrow> string \<Rightarrow> string \<Rightarrow> pstate \<Rightarrow> (py_error + bool) \<times> pstate" where
  "extract_courses_from_pdf w pdf_path output_path st =
     (if api_key w = None \<or> api_key w = Some [] then (Inr False, st)
      else
        case extract_text_from_pdf w pdf_path of
          None \<Rightarrow> (Inr False, st)
        | Some pages_text \<Rightarrow>
            if pages_text = [] then (Inr False, st)
            else
              (case pages_loop w pdf_path output_path (int (length pages_text))
                      (zip (map int [1..<Suc (length pages_text)]) pages_text)
                      \<lparr>all_courses = [], context_pages = [], recent_courses = []\<rparr> st of
                 (Inl e, st1) \<Rightarrow> (Inl e, st1)
               | (Inr v, st1) \<Rightarrow>
                   (case final_validation w (all_courses v) of
                      Inl e \<Rightarrow> (Inl e, st1)
                    | Inr validated_courses \<Rightarrow>
                        (case write_json w
                                (final_data w validated_courses pdf_path
                                   (int (length pages_text)) st1)
                                output_path st1 of
                           (saved, st2) \<Rightarrow> (Inr saved, st2)))))"

definition initial_pstate :: "(string \<Rightarrow> string option) \<Rightarrow> pstate" where
  "initial_pstate fs = \<lparr>calls = 0, trace = [], files = fs, saves = 0\<rparr>"

section \<open>The web crawlers\<close>

text \<open>
  The course dict the page parsers build. The Manoa parser leaves a field \<open>None\<close> when
  the page lacks it and keeps the metadata as a dict; the Kauai parser fills every field
  with a string and joins the metadata into one.
\<close>

record ('s, 'm) course =
  course_prefix :: 's
  course_number :: 's
  course_title :: 's
  course_desc :: 's
  num_units :: 's
  dept_name :: 's
  inst_ipeds :: "int option"
  metadata :: 'm

record ('s, 'm) web_course = "('s, 'm) course" +
  source_url :: string
  extraction_timestamp :: string

type_synonym manoa_course = "(string option, (string \<times> string) list) web_course"

type_synonym kauai_course = "(string, string) course"

subsection \<open>The Manoa crawler (manoa_scraper.py)\<close>

text \<open>
  The messages the crawler prints, with the URL or page they name; \<open>Submitted\<close> marks
  \<open>executor.submit\<close>, and \<open>Wrote_file\<close> carries the data of a successful save.
\<close>

datatype manoa_event =
  Submitted string
  | Extracted string
  | Failed_to_parse string
  | Error_extracting string
  | Error_processing string
  | Catalog_error int
  | Wrote_file string "manoa_course list"
  | Save_error

text \<open>
  The browser and the disk, as parameters: the \<open>href\<close> attributes of the links of a
  catalog page (\<open>None\<close> when visiting the page raises), whether a worker's
  \<open>webdriver.Chrome\<close> starts and quits without raising, \<open>driver.page_source\<close> after
  \<open>driver.get(url)\<close> (\<open>None\<close> when either raises), the page parser, the place of a
  URL in the iteration order of a set of URLs (\<open>list(set)\<close> follows the hashes of the
  strings), the moment a worker's future completes, how the n-th save of the crawl
  ends, and the chunks in which \<open>json.dump\<close> writes the data to the file.
\<close>

record manoa_env =
  catalog_hrefs :: "int \<Rightarrow> string option list option"
  chrome_starts :: "string \<Rightarrow> bool"
  chrome_quits :: "string \<Rightarrow> bool"
  page_source :: "string \<Rightarrow> string option"
  parse_course_preview_html :: "string \<Rightarrow> string \<Rightarrow> py_error + manoa_course option"
  set_position :: "string \<Rightarrow> nat"
  finish_time :: "string \<Rightarrow> nat"
  manoa_save_ends :: "nat \<Rightarrow> save_end"
  manoa_dump :: "manoa_course list \<Rightarrow> string list"

record crawl_state =
  visited_courses :: "string set"
  all_extracted :: "manoa_course list"
  total_course_count :: nat
  crawl_files :: "string \<Rightarrow> string option"
  crawl_saves :: nat
  crawl_log :: "manoa_event list"

definition save_to_json ::
  "manoa_env \<Rightarrow> manoa_course list \<Rightarrow> string \<Rightarrow> crawl_state \<Rightarrow> crawl_state" where
  "save_to_json w data filepath st =
     (case manoa_save_ends w (crawl_saves st) of
        Open_raises \<Rightarrow>
          st\<lparr>crawl_saves := crawl_saves st + 1, crawl_log := crawl_log st @ [Save_error]\<rparr>
      | Dump_raises k \<Rightarrow>
          st\<lparr>crawl_files := stopped_after (Suc k) filepath (manoa_dump w data) (crawl_files st),
              crawl_saves := crawl_saves st + 1,
              crawl_log := crawl_log st @ [Save_error]\<rparr>
      | Completes \<Rightarrow>
          st\<lparr>crawl_files := run_ops (write_ops filepath (manoa_dump w data)) (crawl_files st),
              crawl_saves := crawl_saves st + 1,
              crawl_log := crawl_log st @ [Wrote_file filepath data]\<rparr>)"

text \<open>
  What the worker's future holds, and what the worker printed: the driver is created
  before the \<open>try\<close> and quit in the \<open>finally\<close>, so an exception of either leaves the
  function; one inside the \<open>try\<close> is printed and turned into \<open>None\<close>.
\<close>

definition extract_single_course ::
  "manoa_env \<Rightarrow> string \<Rightarrow> (py_error + manoa_course option) \<times> manoa_event list" where
  "extract_single_course w course_url =
     (if \<not> chrome_starts w course_url then (Inl WebDriverError, [])
      else
        (let (parsed, printed) =
               (case page_source w course_url of
                  None \<Rightarrow> (None, [Error_extracting course_url])
                | Some html \<Rightarrow>
                    (case parse_course_preview_html w html course_url of
                       Inl e \<Rightarrow> (None, [Error_extracting course_url])
                     | Inr r \<Rightarrow> (r, [])))
         in if chrome_quits w course_url then (Inr parsed, printed)
            else (Inl WebDriverError, printed)))"

text \<open>One round of the loop over \<open>as_completed\<close>, on the pair of \<open>completed_count\<close> and
  \<open>batch_results\<close> and the crawl's state.\<close>

definition handle_completed ::
  "manoa_env \<Rightarrow> string \<Rightarrow> int \<Rightarrow> nat \<Rightarrow> string \<Rightarrow> (nat \<times> manoa_course list) \<times> crawl_state
     \<Rightarrow> (nat \<times> manoa_course list) \<times> crawl_state" where
  "handle_completed w output_file batch_size n_urls course_url = (\<lambda>((completed_count, batch_results), st).
     (let completed_count = completed_count + 1;
          st = st\<lparr>total_course_count := total_course_count st + 1\<rparr>
      in case extract_single_course w course_url of
           (Inl e, printed) \<Rightarrow>
             ((completed_count, batch_results),
              st\<lparr>crawl_log := crawl_log st @ printed @ [Error_processing course_url]\<rparr>)
         | (Inr parsed, printed) \<Rightarrow>
             (let (batch_results, st) =
                    (case parsed of
                       Some c \<Rightarrow>
                         (batch_results @ [c],
                          st\<lparr>all_extracted := all_extracted st @ [c],
                              crawl_log := crawl_log st @ printed @ [Extracted course_url]\<rparr>)
                     | None \<Rightarrow>
                         (batch_results,
                          st\<lparr>crawl_log := crawl_log st @ printed @ [Failed_to_parse course_url]\<rparr>));
                  st = st\<lparr>visited_courses := insert course_url (visited_courses st)\<rparr>
              in if batch_size \<le> int (length batch_results) \<or> completed_count = n_urls
                 then ((completed_count, []), save_to_json w (all_extracted st) output_file st)
                 else ((completed_count, batch_results), st))))"

text \<open>
  One catalog page. The set of new links is kept as a list without repetition, and
  \<open>list(current_page_course_links)\<close> puts it in the iteration order of the set; the
  futures are handled in the order they complete, whatever the number of workers and
  the delay between requests.
\<close>

definition crawl_page ::
  "manoa_env \<Rightarrow> string \<Rightarrow> string \<Rightarrow> int \<Rightarrow> int \<Rightarrow> crawl_state \<Rightarrow> crawl_state" where
  "crawl_page w base_course_url_prefix output_file batch_size page_num st =
     (case catalog_hrefs w page_num of
        None \<Rightarrow> st\<lparr>crawl_log := crawl_log st @ [Catalog_error page_num]\<rparr>
      | Some hrefs \<Rightarrow>
          (let current_page_course_links =
                 remdups (filter (\<lambda>href. href \<noteq> [] \<and> starts_with base_course_url_prefix href
                                     \<and> href \<notin> visited_courses st)
                            (List.map_filter id hrefs))
           in if current_page_course_links = [] then st
              else
                (let course_urls = sort_key (set_position w) current_page_course_links;
                     st1 = st\<lparr>crawl_log := crawl_log st @ map Submitted course_urls\<rparr>
                 in snd (fold (handle_completed w output_file batch_size (length course_urls))
                           (sort_key (finish_time w) course_urls) ((0, []), st1)))))"

definition crawl_courses ::
  "manoa_env \<Rightarrow> string \<Rightarrow> string \<Rightarrow> int \<Rightarrow> int \<Rightarrow> int \<Rightarrow> (string \<Rightarrow> string option)
     \<Rightarrow> crawl_state" where
  "crawl_courses w base_course_url_prefix output_file start_page end_page batch_size fs =
     (let st = fold (crawl_page w base_course_url_prefix output_file batch_size)
                 [start_page..end_page]
                 \<lparr>visited_courses = {}, all_extracted = [], total_course_count = 0,
                  crawl_files = fs, crawl_saves = 0, crawl_log = []\<rparr>
      in save_to_json w (all_extracted st) output_file st)"

subsection \<open>The Kauai crawler (web_scraper.py)\<close>

text \<open>
  The catalog as a parameter: the \<open>href\<close> and text of every \<open>a\<close> element with
  \<open>hreflang="en"\<close> of a catalog page (\<open>None\<close> when reading the page raises), and what
  \<open>extract_department_courses\<close> returns for a department (or the exception of its driver,
  which is created before its \<open>try\<close>); how the one save ends, and the chunks in which
  \<open>json.dump\<close> writes the data to the file.
\<close>

record kauai_env =
  catalog_links :: "int \<Rightarrow> (string \<times> string) list option"
  extract_department_courses :: "string \<Rightarrow> py_error + kauai_course list"
  kauai_save_ends :: save_end
  kauai_dump :: "kauai_course list \<Rightarrow> string list"

record kauai_state =
  kauai_courses :: "kauai_course list"
  visited_dept_urls :: "string set"
  seen_courses :: "string set"

text \<open>\<open>f"{course['course_prefix']}-{course['course_number']}"\<close>\<close>

definition kauai_key :: "kauai_course \<Rightarrow> string" where
  "kauai_key c = course_prefix c @ ''-'' @ course_number c"

definition add_course :: "kauai_course \<Rightarrow> kauai_state \<Rightarrow> kauai_state" where
  "add_course c st =
     (if kauai_key c \<notin> seen_courses st
      then st\<lparr>seen_courses := insert (kauai_key c) (seen_courses st),
              kauai_courses := kauai_courses st @ [c]\<rparr>
      else st)"

text \<open>The filter for department links; a new one is added to the work list and to the
  visited set at once.\<close>

definition note_link :: "string \<times> string \<Rightarrow> string list \<times> kauai_state \<Rightarrow> string list \<times> kauai_state"
  where
  "note_link = (\<lambda>(href, link_text) (valid_dept_links, st).
     if starts_with ''/'' href \<and> 1 < length href \<and> CHR ''('' \<in> set link_text
        \<and> CHR '')'' \<in> set link_text
     then (if href \<notin> visited_dept_urls st
           then (valid_dept_links @ [href],
                 st\<lparr>visited_dept_urls := insert href (visited_dept_urls st)\<rparr>)
           else (valid_dept_links, st))
     else (valid_dept_links, st))"

text \<open>The loop over the departments of one page; an exception ends the page.\<close>

fun visit_departments :: "kauai_env \<Rightarrow> string list \<Rightarrow> kauai_state \<Rightarrow> kauai_state" where
  "visit_departments w [] st = st"
| "visit_departments w (dept_url # rest) st =
     (case extract_department_courses w dept_url of
        Inl e \<Rightarrow> st
      | Inr dept_courses \<Rightarrow> visit_departments w rest (fold add_course dept_courses st))"

definition kauai_page :: "kauai_env \<Rightarrow> int \<Rightarrow> kauai_state \<Rightarrow> kauai_state" where
  "kauai_page w page_num st =
     (case catalog_links w page_num of
        None \<Rightarrow> st
      | Some dept_links \<Rightarrow>
          (case fold note_link dept_links ([], st) of
             (valid_dept_links, st1) \<Rightarrow> visit_departments w valid_dept_links st1))"

text \<open>\<open>crawl_courses\<close> of the Kauai scraper: the courses collected, and the files after
  the one save at its end.\<close>

definition kauai_crawl_courses ::
  "kauai_env \<Rightarrow> string \<Rightarrow> int \<Rightarrow> int \<Rightarrow> (string \<Rightarrow> string option)
     \<Rightarrow> kauai_state \<times> (string \<Rightarrow> string option)" where
  "kauai_crawl_courses w output_file start_page end_page fs =
     (let st = fold (kauai_page w) [start_page..end_page]
                 \<lparr>kauai_courses = [], visited_dept_urls = {}, seen_courses = {}\<rparr>
      in (st, case kauai_save_ends w of
                Open_raises \<Rightarrow> fs
              | Dump_raises k \<Rightarrow>
                  stopped_after (Suc k) output_file (kauai_dump w (kauai_courses st)) fs
              | Completes \<Rightarrow>
                  run_ops (write_ops output_file (kauai_dump w (kauai_courses st))) fs))"


section \<open>Properties and example runs\<close>

subsection \<open>Predicates of the properties\<close>

text \<open>Some field of a course dict, or of one of several, holds a value the repair pass
  looks for.\<close>

definition has_placeholder :: "pdf_env \<Rightarrow> (string \<times> json) list \<Rightarrow> bool" where
  "has_placeholder w kvs = list_ex (\<lambda>(key, v). is_placeholder w v) kvs"

definition contains_placeholder ::
  "pdf_env \<Rightarrow> (string \<times> json) list list \<Rightarrow> bool" where
  "contains_placeholder w objs = list_ex (has_placeholder w) objs"

text \<open>Some course dict of a parsed result holds such a value, wherever it stands in the
  result and whatever stands before it.\<close>

definition result_has_placeholder :: "pdf_env \<Rightarrow> json list \<Rightarrow> bool" where
  "result_has_placeholder w cs =
     list_ex (\<lambda>c. case c of JObj kvs \<Rightarrow> has_placeholder w kvs | _ \<Rightarrow> False) cs"

text \<open>A generation call of the repair pass.\<close>

fun is_repair :: "event \<Rightarrow> bool" where
  "is_repair (Generate (Fix_prompt cs ctx rc)) = True"
| "is_repair e = False"

text \<open>The n-th generation call, asked \<open>p\<close>, raises or answers with text that
  \<open>json.loads\<close> rejects.\<close>

definition response_unusable :: "pdf_env \<Rightarrow> nat \<Rightarrow> prompt \<Rightarrow> bool" where
  "response_unusable w n p =
     (case generate_content w n p of
        None \<Rightarrow> True
      | Some t \<Rightarrow> json_loads w (clean_response w t) = None)"

fun is_generate :: "event \<Rightarrow> bool" where
  "is_generate (Generate p) = True"
| "is_generate (Sleep n) = False"
| "is_generate (Wrote path d) = False"

text \<open>No generation call follows another without a sleep between them, and every
  sleep after a generation call lasts a second or more.\<close>

fun well_spaced :: "event list \<Rightarrow> bool" where
  "well_spaced (Generate p # Generate q # es) = False"
| "well_spaced (Generate p # Sleep n # es) = (1 \<le> n \<and> well_spaced es)"
| "well_spaced (e # es) = well_spaced es"
| "well_spaced [] = True"

text \<open>The files a run wrote, in order: the path and the data of each.\<close>

fun writes_of :: "event list \<Rightarrow> (string \<times> json) list" where
  "writes_of [] = []"
| "writes_of (Wrote path d # es) = (path, d) # writes_of es"
| "writes_of (e # es) = writes_of es"

text \<open>A step of the run that writes no file and makes no save: the trace grows by
  generation calls and sleeps only.\<close>

definition quiet_step :: "pstate \<Rightarrow> pstate \<Rightarrow> bool" where
  "quiet_step st st' =
     (\<exists>evs. trace st' = trace st @ evs \<and> writes_of evs = []
        \<and> saves st' = saves st \<and> files st' = files st)"

text \<open>The members of a JSON object, and the courses of a saved document.\<close>

definition member :: "json \<Rightarrow> string \<Rightarrow> json option" where
  "member d k = (case d of JObj kvs \<Rightarrow> map_of kvs k | _ \<Rightarrow> None)"

definition member_names :: "json \<Rightarrow> string list" where
  "member_names d = (case d of JObj kvs \<Rightarrow> map fst kvs | _ \<Rightarrow> [])"

definition doc_courses :: "json \<Rightarrow> json list" where
  "doc_courses d = (case member d ''courses'' of Some (JArr cs) \<Rightarrow> cs | _ \<Rightarrow> [])"

text \<open>
  The natural key of a course dict as the specification defines it: the pair of
  \<open>course_prefix\<close> and \<open>course_number\<close>, case-normalized (the empty string standing
  for a missing member).
\<close>

definition case_normalized :: "pdf_env \<Rightarrow> json \<Rightarrow> json" where
  "case_normalized w v = (case v of JStr s \<Rightarrow> JStr (str_lower w s) | _ \<Rightarrow> v)"

definition natural_key :: "pdf_env \<Rightarrow> json \<Rightarrow> (json \<times> json) option" where
  "natural_key w c =
     (case c of
        JObj kvs \<Rightarrow>
          Some (case_normalized w (dict_get kvs ''course_prefix'' (JStr [])),
                case_normalized w (dict_get kvs ''course_number'' (JStr [])))
      | _ \<Rightarrow> None)"

text \<open>The pair of \<open>course_prefix\<close> and \<open>course_number\<close> of a course dict as they are
  written, with no normalization.\<close>

definition written_key :: "json \<Rightarrow> (json \<times> json) option" where
  "written_key c =
     (case c of
        JObj kvs \<Rightarrow>
          Some (dict_get kvs ''course_prefix'' (JStr []), dict_get kvs ''course_number'' (JStr []))
      | _ \<Rightarrow> None)"

text \<open>
  A filter that keeps the first record of every key: the first record is kept, every
  later record with its key is dropped, and so on for the records that remain.
\<close>

fun first_of_each_key :: "('a \<Rightarrow> 'k) \<Rightarrow> 'a list \<Rightarrow> 'a list" where
  "first_of_each_key key [] = []"
| "first_of_each_key key (c # cs) = c # first_of_each_key key (filter (\<lambda>d. key d \<noteq> key c) cs)"

definition is_dict :: "json \<Rightarrow> bool" where
  "is_dict c = (case c of JObj kvs \<Rightarrow> True | _ \<Rightarrow> False)"

text \<open>The number of pages of the PDF (0 when it cannot be read).\<close>

definition page_count :: "pdf_env \<Rightarrow> string \<Rightarrow> int" where
  "page_count w pdf_path =
     (case extract_text_from_pdf w pdf_path of
        None \<Rightarrow> 0
      | Some pages_text \<Rightarrow> int (length pages_text))"

text \<open>What the page loop writes after page \<open>i\<close>, and what the final save writes: at the
  output path, the checkpoint data of page \<open>i\<close> for courses with distinct keys; the
  final data of no courses.\<close>

definition loop_write_ok ::
  "pdf_env \<Rightarrow> string \<Rightarrow> string \<Rightarrow> int \<Rightarrow> int \<Rightarrow> string \<times> json \<Rightarrow> bool" where
  "loop_write_ok w pdf out T i = (\<lambda>(path, d).
     path = out
     \<and> (\<exists>cs s. d = checkpoint_data w cs pdf i T s \<and> distinct (map (course_key w) cs)))"

definition final_write_ok ::
  "pdf_env \<Rightarrow> string \<Rightarrow> string \<Rightarrow> int \<Rightarrow> string \<times> json \<Rightarrow> bool" where
  "final_write_ok w pdf out T = (\<lambda>(path, d).
     path = out \<and> (\<exists>s. d = final_data w [] pdf T s))"

text \<open>
  The pages among the first \<open>m\<close> whose checkpoint save completes. The save after page
  \<open>i\<close> is the \<open>i\<close>-th save of the run; \<open>a\<close> is the number of saves made before.
\<close>

definition saved_pages_from :: "pdf_env \<Rightarrow> nat \<Rightarrow> nat \<Rightarrow> int list" where
  "saved_pages_from w a m =
     map (\<lambda>k. int k + 1) (filter (\<lambda>k. save_ends w k = Completes) [a..<a + m])"

definition saved_pages :: "pdf_env \<Rightarrow> nat \<Rightarrow> int list" where
  "saved_pages w m = saved_pages_from w 0 m"

text \<open>
  The shape of a saved document. The metadata carries the source file, the number of
  pages, the number of courses and a timestamp; the status a checkpoint after page
  \<open>i\<close> must show is \<open>in_progress\<close> before the last page and \<open>complete\<close> at it.
\<close>

definition metadata_ok :: "pdf_env \<Rightarrow> string \<Rightarrow> int \<Rightarrow> json \<Rightarrow> json list \<Rightarrow> bool" where
  "metadata_ok w pdf_path total_pages md cs =
     (member md ''source_file'' = Some (JStr (basename w pdf_path))
      \<and> member md ''total_pages'' = Some (JInt total_pages)
      \<and> member md ''total_courses'' = Some (JInt (int (length cs)))
      \<and> (case member md ''extraction_timestamp'' of Some (JStr ts) \<Rightarrow> True | _ \<Rightarrow> False))"

definition progress_status :: "int \<Rightarrow> int \<Rightarrow> json" where
  "progress_status total_pages i =
     JStr (if i < total_pages then ''in_progress'' else ''complete'')"

text \<open>
  The checkpoint after page \<open>i\<close> as the specification describes it: two members, the
  metadata and the courses, and in the metadata the number \<open>i\<close> of pages processed
  with the status that goes with it.
\<close>

definition checkpoint_as_claimed :: "pdf_env \<Rightarrow> string \<Rightarrow> int \<Rightarrow> int \<Rightarrow> json \<Rightarrow> bool" where
  "checkpoint_as_claimed w pdf_path total_pages i d =
     (member_names d = [''metadata'', ''courses'']
      \<and> (case (member d ''metadata'', member d ''courses'') of
            (Some md, Some (JArr cs)) \<Rightarrow>
              metadata_ok w pdf_path total_pages md cs
              \<and> member md ''pages_processed'' = Some (JInt i)
              \<and> member md ''status'' = Some (progress_status total_pages i)
          | _ \<Rightarrow> False))"

text \<open>A document that is the checkpoint of one of the pages 1 to \<open>total_pages\<close>.\<close>

definition some_checkpoint_as_claimed :: "pdf_env \<Rightarrow> string \<Rightarrow> int \<Rightarrow> json \<Rightarrow> bool" where
  "some_checkpoint_as_claimed w pdf_path total_pages d =
     list_ex (\<lambda>i. checkpoint_as_claimed w pdf_path total_pages i d) [1..total_pages]"

text \<open>The document of the final save: the same two members, the status \<open>complete\<close>,
  and no count of the pages processed.\<close>

definition final_as_saved :: "pdf_env \<Rightarrow> string \<Rightarrow> int \<Rightarrow> json \<Rightarrow> bool" where
  "final_as_saved w pdf_path total_pages d =
     (member_names d = [''metadata'', ''courses'']
      \<and> (case (member d ''metadata'', member d ''courses'') of
            (Some md, Some (JArr cs)) \<Rightarrow>
              metadata_ok w pdf_path total_pages md cs
              \<and> member md ''pages_processed'' = None
              \<and> member md ''status'' = Some (JStr ''complete'')
          | _ \<Rightarrow> False))"

text \<open>The documents a run of \<open>extract_courses_from_pdf\<close> saves, in order.\<close>

definition artifacts ::
  "pdf_env \<Rightarrow> string \<Rightarrow> string \<Rightarrow> (string \<Rightarrow> string option) \<Rightarrow> json list" where
  "artifacts w pdf_path output_path fs =
     map snd (writes_of (trace (snd
       (extract_courses_from_pdf w pdf_path output_path (initial_pstate fs)))))"

text \<open>
  A save as the specification describes it. However the save of a checkpoint ends, the
  output path holds the data that was there before, or the new data in full; and the
  same is true when the process is killed after \<open>k\<close> operations of the save.
\<close>

definition save_as_claimed ::
  "pdf_env \<Rightarrow> json list \<Rightarrow> string \<Rightarrow> string \<Rightarrow> int \<Rightarrow> int \<Rightarrow> pstate \<Rightarrow> bool" where
  "save_as_claimed w cs pdf_path output_path i n st =
     (let after = files (snd (save_incremental_results w cs pdf_path output_path i n st))
      in after output_path = files st output_path
         \<or> after output_path
             = Some (concat (json_dump w (checkpoint_data w cs pdf_path i n st))))"

definition kill_as_claimed ::
  "pdf_env \<Rightarrow> json list \<Rightarrow> string \<Rightarrow> string \<Rightarrow> int \<Rightarrow> int \<Rightarrow> pstate \<Rightarrow> nat \<Rightarrow> bool" where
  "kill_as_claimed w cs pdf_path output_path i n st k =
     (let chunks = json_dump w (checkpoint_data w cs pdf_path i n st);
          after = stopped_after k output_path chunks (files st)
      in after output_path = files st output_path
         \<or> after output_path = Some (concat chunks))"

text \<open>The pair of prefix and number of a course of the Kauai crawler as they are
  written.\<close>

definition kauai_written_key :: "kauai_course \<Rightarrow> string \<times> string" where
  "kauai_written_key c = (course_prefix c, course_number c)"

text \<open>
  The natural key of a course of the Kauai crawler, case-normalized; and a course whose
  prefix and number hold no lower-case letter, as the page parser leaves them (it takes
  the course code, lower-case letters, a hyphen and digits, from the link of the course,
  turns it to upper case with \<open>str.upper\<close> and splits it at the hyphen).
\<close>

definition kauai_natural_key :: "kauai_course \<Rightarrow> string \<times> string" where
  "kauai_natural_key c = (ascii_lower (course_prefix c), ascii_lower (course_number c))"

definition lower_case_letter :: "char \<Rightarrow> bool" where
  "lower_case_letter c = (c \<in> set ''abcdefghijklmnopqrstuvwxyz'')"

definition upper_cased :: "string \<Rightarrow> bool" where
  "upper_cased s = list_all (\<lambda>c. \<not> lower_case_letter c) s"

definition upper_coded :: "kauai_course \<Rightarrow> bool" where
  "upper_coded c = (upper_cased (course_prefix c) \<and> upper_cased (course_number c))"

text \<open>The invariant of the duplicate filter of the Kauai crawler.\<close>

definition kauai_inv :: "kauai_state \<Rightarrow> bool" where
  "kauai_inv st =
     (seen_courses st = kauai_key ` set (kauai_courses st)
      \<and> distinct (map kauai_key (kauai_courses st)))"

text \<open>The URLs of the futures the crawler has taken from \<open>as_completed\<close> (each prints
  one of three messages), and the URLs it has submitted, in the order of the log.\<close>

fun completed_url :: "manoa_event \<Rightarrow> string option" where
  "completed_url (Extracted u) = Some u"
| "completed_url (Failed_to_parse u) = Some u"
| "completed_url (Error_processing u) = Some u"
| "completed_url e = None"

fun submitted_url :: "manoa_event \<Rightarrow> string option" where
  "submitted_url (Submitted u) = Some u"
| "submitted_url e = None"

definition completed_urls :: "manoa_event list \<Rightarrow> string list" where
  "completed_urls evs = List.map_filter completed_url evs"

definition submitted_urls :: "manoa_event list \<Rightarrow> string list" where
  "submitted_urls evs = List.map_filter submitted_url evs"

text \<open>What one unit yields: the records it contributes (one, or none when the page has
  no course or the worker fails), whether its renderer or its parser raises, and the
  messages printed for it.\<close>

definition unit_records :: "manoa_env \<Rightarrow> string \<Rightarrow> manoa_course list" where
  "unit_records w u =
     (case fst (extract_single_course w u) of Inr (Some c) \<Rightarrow> [c] | _ \<Rightarrow> [])"

definition unit_raises :: "manoa_env \<Rightarrow> string \<Rightarrow> bool" where
  "unit_raises w u =
     (\<not> chrome_starts w u \<or> \<not> chrome_quits w u
      \<or> (case page_source w u of
            None \<Rightarrow> True
          | Some html \<Rightarrow> isl (parse_course_preview_html w html u)))"

definition unit_events :: "manoa_env \<Rightarrow> string \<Rightarrow> manoa_event list" where
  "unit_events w u =
     (case extract_single_course w u of
        (Inl e, printed) \<Rightarrow> printed @ [Error_processing u]
      | (Inr None, printed) \<Rightarrow> printed @ [Failed_to_parse u]
      | (Inr (Some c), printed) \<Rightarrow> printed @ [Extracted u])"

text \<open>
  A later state of the crawl, reached by submitting \<open>subs\<close> and handling the completed
  futures of \<open>comps\<close>: the log has grown by their messages, the result list by their
  records, and only completed URLs have entered the visited set.
\<close>

definition crawl_extends ::
  "manoa_env \<Rightarrow> crawl_state \<Rightarrow> string list \<Rightarrow> string list \<Rightarrow> crawl_state \<Rightarrow> bool" where
  "crawl_extends w st subs comps st' =
     (\<exists>evs. crawl_log st' = crawl_log st @ evs
        \<and> submitted_urls evs = subs \<and> completed_urls evs = comps
        \<and> (\<forall>u\<in>set comps. set (unit_events w u) \<subseteq> set evs)
        \<and> all_extracted st' = all_extracted st @ concat (map (unit_records w) comps)
        \<and> visited_courses st \<subseteq> visited_courses st'
        \<and> visited_courses st' \<subseteq> visited_courses st \<union> set comps)"

text \<open>The new course links of a catalog page.\<close>

definition new_links ::
  "string \<Rightarrow> string option list \<Rightarrow> string set \<Rightarrow> string list" where
  "new_links base hrefs visited =
     remdups (filter (\<lambda>href. href \<noteq> [] \<and> starts_with base href \<and> href \<notin> visited)
                (List.map_filter id hrefs))"

text \<open>The natural key of a course of the Manoa crawler, case-normalized by \<open>lower\<close>.\<close>

definition manoa_natural_key ::
  "(string \<Rightarrow> string) \<Rightarrow> manoa_course \<Rightarrow> string option \<times> string option" where
  "manoa_natural_key lower c =
     (map_option lower (course_prefix c), map_option lower (course_number c))"

text \<open>Every visited URL has been submitted.\<close>

definition submitted_inv :: "crawl_state \<Rightarrow> bool" where
  "submitted_inv st = (visited_courses st \<subseteq> set (submitted_urls (crawl_log st)))"

subsection \<open>Example runs\<close>

definition page_one :: page where
  "page_one = \<lparr>page_number = 1, page_text_of = ''ACC 124 X''\<rparr>"

text \<open>A generation service that never answers with JSON.\<close>

definition no_json_env :: pdf_env where
  "no_json_env =
     \<lparr>api_key = Some ''key'',
      pdf_texts = (\<lambda>path. Some [''ACC 124 X'']),
      generate_content = (\<lambda>n p. Some ''Sorry, no courses here''),
      json_loads = (\<lambda>s. None),
      str_lower = ascii_lower,
      str_strip = ascii_strip,
      py_repr = (\<lambda>v. ''?''),
      json_dump = (\<lambda>d. [''{'', ''}'']),
      save_ends = (\<lambda>n. Completes),
      now_iso = (\<lambda>n. ''2025-01-01T00:00:00''),
      basename = (\<lambda>p. p),
      call_fn = (\<lambda>f x. Inr True)\<rparr>"

text \<open>
  A two-page run: the first page yields a partial record of ACC 124 (empty description)
  and ACC 125; the service cannot repair it; asked about the second page with ACC 124 in
  the overlap courses, the service answers with the completed record of ACC 124.
\<close>

definition acc124_partial :: json where
  "acc124_partial =
     JObj [(''course_prefix'', JStr ''ACC''), (''course_number'', JStr ''124''),
           (''course_title'', JStr ''X''), (''course_desc'', JStr '''')]"

definition acc125 :: json where
  "acc125 =
     JObj [(''course_prefix'', JStr ''ACC''), (''course_number'', JStr ''125''),
           (''course_title'', JStr ''Y''), (''course_desc'', JStr ''Managerial accounting'')]"

definition acc124_complete :: json where
  "acc124_complete =
     JObj [(''course_prefix'', JStr ''ACC''), (''course_number'', JStr ''124''),
           (''course_title'', JStr ''X''), (''course_desc'', JStr ''Intro to accounting'')]"

definition overlap_env :: pdf_env where
  "overlap_env =
     no_json_env
       \<lparr>pdf_texts := (\<lambda>path. Some [''ACC 124 X ACC 125 Y Managerial accounting'',
                                    ''Intro to accounting'']),
        generate_content :=
          (\<lambda>n p. case p of
                    Extract_prompt pg ctx rc ov \<Rightarrow>
                      Some (if acc124_partial \<in> set ov then ''update'' else ''first page'')
                  | Fix_prompt cs ctx rc \<Rightarrow> Some ''cannot fix''),
        json_loads :=
          (\<lambda>s. if s = ''first page'' then Some (JArr [acc124_partial, acc125])
               else if s = ''update'' then Some (JArr [acc124_complete])
               else None)\<rparr>"

text \<open>
  A one-page run in which the service answers with two complete records of ACC 124 that
  differ in the case of the prefix only.
\<close>

definition acc124_lower_case :: json where
  "acc124_lower_case =
     JObj [(''course_prefix'', JStr ''acc''), (''course_number'', JStr ''124''),
           (''course_title'', JStr ''X''), (''course_desc'', JStr ''Intro to accounting'')]"

definition case_env :: pdf_env where
  "case_env =
     no_json_env
       \<lparr>generate_content := (\<lambda>n p. Some ''courses''),
        json_loads :=
          (\<lambda>s. if s = ''courses'' then Some (JArr [acc124_complete, acc124_lower_case])
               else None)\<rparr>"

text \<open>
  A service whose answer parses to a list in which a string stands before a course dict
  with an empty description.
\<close>

definition non_dict_env :: pdf_env where
  "non_dict_env =
     no_json_env
       \<lparr>generate_content := (\<lambda>n p. Some ''courses''),
        json_loads :=
          (\<lambda>s. if s = ''courses''
               then Some (JArr [JStr ''Accounting'', JObj [(''course_desc'', JStr '''')]])
               else None)\<rparr>"

text \<open>A disk on which every dump raises after its first chunk.\<close>

definition broken_dump_env :: pdf_env where
  "broken_dump_env = no_json_env\<lparr>save_ends := (\<lambda>n. Dump_raises 1)\<rparr>"

text \<open>
  A crawl of the catalog pages 0 to 2.
 Page 0 links to the courses 1, 2 and 3, page 1 to
  the courses 1, 2 and 4, and page 2 cannot be read. The browser of the worker for course
  1 does not start, the page of course 3 does not load, and the pages of the courses 2
  and 4 both describe ACC 124.
\<close>

definition course_base :: string where
  "course_base = ''https://catalog/preview_course_nopop.php?coid=''"

definition acc124_at :: "string \<Rightarrow> manoa_course" where
  "acc124_at url =
     \<lparr>course_prefix = Some ''ACC'', course_number = Some ''124'',
      course_title = Some ''Introduction to Accounting'', course_desc = None,
      num_units = Some ''3'', dept_name = None, inst_ipeds = None, metadata = [],
      source_url = url, extraction_timestamp = ''2025-01-01 00:00:00''\<rparr>"

definition demo_crawl_env :: manoa_env where
  "demo_crawl_env =
     \<lparr>catalog_hrefs =
        (\<lambda>page_num.
           if page_num = 0
           then Some [Some (course_base @ ''1''), None, Some ''https://catalog/index'',
                      Some (course_base @ ''2''), Some (course_base @ ''3'')]
           else if page_num = 1
           then Some [Some (course_base @ ''1''), Some (course_base @ ''2''),
                      Some (course_base @ ''4'')]
           else None),
      chrome_starts = (\<lambda>url. url \<noteq> course_base @ ''1''),
      chrome_quits = (\<lambda>url. True),
      page_source = (\<lambda>url. if url = course_base @ ''3'' then None else Some ''<html>''),
      parse_course_preview_html = (\<lambda>html url. Inr (Some (acc124_at url))),
      set_position = (\<lambda>url. 0),
      finish_time = (\<lambda>url. if url = course_base @ ''2'' then 2 else 1),
      manoa_save_ends = (\<lambda>n. Completes),
      manoa_dump = (\<lambda>data. [''['', '']''])\<rparr>"

definition demo_crawl :: crawl_state where
  "demo_crawl =
     crawl_courses demo_crawl_env course_base ''extracted_courses.json'' 0 2 50 Map.empty"

text \<open>
  A crawl of the Kauai catalog pages 0 to 2. Page 0 links to the accounting department,
  page 1 to accounting and business, and page 2 cannot be read. The accounting page
  lists ACC 124, ACC 125 and ACC 124 again; the business page lists ACC 125 and BUS
  120.
\<close>

definition kauai_course_of :: "string \<Rightarrow> string \<Rightarrow> string \<Rightarrow> kauai_course" where
  "kauai_course_of prefix number title =
     \<lparr>course_prefix = prefix, course_number = number, course_title = title,
      course_desc = ''A course'', num_units = ''3'', dept_name = ''Accounting'',
      inst_ipeds = None, metadata = ''''\<rparr>"

definition demo_kauai_env :: kauai_env where
  "demo_kauai_env =
     \<lparr>catalog_links =
        (\<lambda>page_num.
           if page_num = 0
           then Some [(''/accounting-acc'', ''Accounting (ACC)''), (''/about'', ''About'')]
           else if page_num = 1
           then Some [(''/accounting-acc'', ''Accounting (ACC)''),
                      (''/business-bus'', ''Business (BUS)'')]
           else None),
      extract_department_courses =
        (\<lambda>dept_url.
           if dept_url = ''/accounting-acc''
           then Inr [kauai_course_of ''ACC'' ''124'' ''Introduction to Accounting'',
                     kauai_course_of ''ACC'' ''125'' ''Managerial Accounting'',
                     kauai_course_of ''ACC'' ''124'' ''Introduction to Accounting (again)'']
           else if dept_url = ''/business-bus''
           then Inr [kauai_course_of ''ACC'' ''125'' ''Accounting for Business'',
                     kauai_course_of ''BUS'' ''120'' ''Principles of Business'']
           else Inl WebDriverError),
      kauai_save_ends = Completes,
      kauai_dump = (\<lambda>data. [''['', '']''])\<rparr>"

definition demo_kauai :: "kauai_state \<times> (string \<Rightarrow> string option)" where
  "demo_kauai = kauai_crawl_courses demo_kauai_env ''kauai_courses.json'' 0 2 Map.empty"


section \<open>Steps that write no file\<close>

lemma writes_of_append: "writes_of (es @ fs) = writes_of es @ writes_of fs"
  by (induction es rule: writes_of.induct) simp_all

lemma quiet_step_refl: "quiet_step st st"
  by (simp add: quiet_step_def)

lemma quiet_step_trans: "quiet_step a b \<Longrightarrow> quiet_step b c \<Longrightarrow> quiet_step a c"
  unfolding quiet_step_def
proof -
  assume "\<exists>evs. trace b = trace a @ evs \<and> writes_of evs = [] \<and> saves b = saves a
            \<and> files b = files a"
    and "\<exists>evs. trace c = trace b @ evs \<and> writes_of evs = [] \<and> saves c = saves b
            \<and> files c = files b"
  then obtain e1 e2 where "trace b = trace a @ e1" "writes_of e1 = []" "saves b = saves a"
    "files b = files a" "trace c = trace b @ e2" "writes_of e2 = []" "saves c = saves b"
    "files c = files b"
    by blast
  then show "\<exists>evs. trace c = trace a @ evs \<and> writes_of evs = [] \<and> saves c = saves a
            \<and> files c = files a"
    by (intro exI[of _ "e1 @ e2"]) (simp add: writes_of_append)
qed

lemma quiet_step_writes: "quiet_step st st' \<Longrightarrow> writes_of (trace st') = writes_of (trace st)"
  by (auto simp: quiet_step_def writes_of_append)

lemma quiet_step_saves: "quiet_step st st' \<Longrightarrow> saves st' = saves st"
  by (auto simp: quiet_step_def)

lemma record_call_quiet: "quiet_step st (record_call p st)"
  by (simp add: quiet_step_def record_call_def)

lemma sleep_quiet: "quiet_step st (st\<lparr>trace := trace st @ [Sleep n]\<rparr>)"
  by (simp add: quiet_step_def)

lemma validate_quiet:
  "validate_and_fix_courses w cs ctx rc st = (r, st') \<Longrightarrow> quiet_step st st'"
  by (auto simp: validate_and_fix_courses_def Let_def quiet_step_refl record_call_quiet
        split: sum.splits bool.splits option.splits if_splits)

lemma attempt_once_quiet:
  assumes "attempt_once w pt ctx rc ov st = (r, st')"
  shows "quiet_step st st'"
proof (cases "create_gemini_prompt pt ctx rc ov")
  case (Inl e)
  with assms show ?thesis by (simp add: attempt_once_def quiet_step_refl)
next
  case (Inr p)
  show ?thesis
  proof (cases "generate_content w (calls st) p")
    case None
    with Inr assms show ?thesis
      by (auto simp: attempt_once_def Let_def record_call_quiet)
  next
    case (Some t)
    show ?thesis
    proof (cases "json_loads w (clean_response w t)")
      case None
      with Inr Some assms show ?thesis
        by (auto simp: attempt_once_def Let_def record_call_quiet)
    next
      case (Some parsed)
      obtain r2 st2 where
        v: "validate_and_fix_courses w (as_course_list parsed) ctx rc (record_call p st) = (r2, st2)"
        by (cases "validate_and_fix_courses w (as_course_list parsed) ctx rc (record_call p st)")
      from quiet_step_trans[OF record_call_quiet validate_quiet[OF v]]
      have q: "quiet_step st st2" .
      have "st' = st2"
        using assms Inr \<open>generate_content w (calls st) p = Some t\<close> Some v
        by (simp add: attempt_once_def Let_def split: sum.splits if_splits)
      with q show ?thesis by simp
    qed
  qed
qed

lemma retry_loop_quiet:
  "retry_loop w pt ctx rc ov mr as st = (r, st') \<Longrightarrow> quiet_step st st'"
proof (induction as arbitrary: st)
  case Nil
  then show ?case by (simp add: quiet_step_refl)
next
  case (Cons a as)
  obtain r1 st1 where a1: "attempt_once w pt ctx rc ov st = (r1, st1)"
    by (cases "attempt_once w pt ctx rc ov st")
  note q1 = attempt_once_quiet[OF a1]
  show ?case
  proof (cases r1)
    case (Inr cs)
    with Cons.prems a1 q1 show ?thesis by simp
  next
    case (Inl e)
    show ?thesis
    proof (cases "int a = mr - 1")
      case True
      with Cons.prems a1 Inl q1 show ?thesis by simp
    next
      case False
      with Cons.prems a1 Inl
      have "retry_loop w pt ctx rc ov mr as
              (st1\<lparr>trace := trace st1 @ [Sleep (if e = JSONDecodeError then 1 else 2)]\<rparr>) = (r, st')"
        by simp
      from quiet_step_trans[OF quiet_step_trans[OF q1 sleep_quiet] Cons.IH[OF this]]
      show ?thesis .
    qed
  qed
qed

lemma extract_page_quiet:
  "extract_courses_from_page w pt ctx rc ov mr st = (r, st') \<Longrightarrow> quiet_step st st'"
  by (simp add: extract_courses_from_page_def retry_loop_quiet)

section \<open>The repair pass\<close>

lemma needs_fixing_objects:
  "needs_fixing w (map JObj objs) = Inr (contains_placeholder w objs)"
  by (induction objs) (simp_all add: contains_placeholder_def has_placeholder_def fields_of_def)

lemma needs_fixing_first_placeholder:
  "\<not> contains_placeholder w pre \<Longrightarrow> has_placeholder w kvs \<Longrightarrow>
   needs_fixing w (map JObj pre @ JObj kvs # rest) = Inr True"
  by (induction pre) (simp_all add: contains_placeholder_def has_placeholder_def fields_of_def)

lemma attempt_once_repair:
  assumes "create_gemini_prompt pt ctx rc ov = Inr p"
    and "generate_content w (calls st) p = Some t"
    and "json_loads w (clean_response w t) = Some parsed"
    and "needs_fixing w (as_course_list parsed) = Inr True"
  shows "\<exists>r. attempt_once w pt ctx rc ov st
             = (r, st\<lparr>calls := calls st + 2,
                      trace := trace st
                        @ [Generate p,
                           Generate (Fix_prompt (as_course_list parsed) (last_n 3 ctx)
                                       (last_n 5 rc))]\<rparr>)
           \<and> (response_unusable w (calls st + 1)
                 (Fix_prompt (as_course_list parsed) (last_n 3 ctx) (last_n 5 rc))
                \<longrightarrow> r = Inr (JArr (as_course_list parsed)))"
proof -
  from assms(4) have ne: "as_course_list parsed \<noteq> []" by auto
  show ?thesis
    using assms ne
    by (auto simp: attempt_once_def validate_and_fix_courses_def Let_def record_call_def
          response_unusable_def has_len_def split: option.splits)
qed

lemma attempt_once_no_repair:
  assumes "create_gemini_prompt pt ctx rc ov = Inr p"
    and "generate_content w (calls st) p = Some t"
    and "json_loads w (clean_response w t) = Some parsed"
    and "needs_fixing w (as_course_list parsed) = Inr False"
  shows "attempt_once w pt ctx rc ov st
           = (Inr (JArr (as_course_list parsed)),
              st\<lparr>calls := calls st + 1, trace := trace st @ [Generate p]\<rparr>)"
  using assms
  by (simp add: attempt_once_def validate_and_fix_courses_def Let_def record_call_def
        has_len_def)

lemma retry_loop_first_attempt:
  assumes "0 < mr"
    and "attempt_once w pt ctx rc ov st = (r, st1)"
  shows "(\<exists>evs. trace (snd (extract_courses_from_page w pt ctx rc ov mr st)) = trace st1 @ evs)
         \<and> (\<forall>cs. r = Inr cs \<longrightarrow> extract_courses_from_page w pt ctx rc ov mr st = (cs, st1))"
proof -
  from assms(1) have upt: "[0..<nat mr] = 0 # [1..<nat mr]"
    by (simp add: upt_conv_Cons)
  show ?thesis
  proof (cases r)
    case (Inr cs)
    with assms(2) upt show ?thesis
      by (simp add: extract_courses_from_page_def)
  next
    case (Inl e)
    show ?thesis
    proof (cases "mr = 1")
      case True
      with assms(2) upt Inl show ?thesis
        by (simp add: extract_courses_from_page_def)
    next
      case False
      define st2 where
        "st2 = st1\<lparr>trace := trace st1 @ [Sleep (if e = JSONDecodeError then 1 else 2)]\<rparr>"
      obtain r3 st3 where l: "retry_loop w pt ctx rc ov mr [1..<nat mr] st2 = (r3, st3)"
        by (cases "retry_loop w pt ctx rc ov mr [1..<nat mr] st2")
      from retry_loop_quiet[OF l] obtain evs where "trace st3 = trace st2 @ evs"
        unfolding quiet_step_def by blast
      then have t: "trace st3 = trace st1 @ (Sleep (if e = JSONDecodeError then 1 else 2) # evs)"
        by (simp add: st2_def)
      have "extract_courses_from_page w pt ctx rc ov mr st = (r3, st3)"
        using assms(2) upt Inl False l
        by (simp add: extract_courses_from_page_def st2_def)
      with t Inl show ?thesis by auto
    qed
  qed
qed

text \<open>
  Claim C8, for parsed results in which no element that is not a dict stands before the
  first placeholder. When the answer to the extraction prompt parses, the attempt (any
  attempt of the retry loop, \<open>attempt_once\<close> in the state the loop has reached) passes
  the parsed courses to \<open>validate_and_fix_courses\<close>. If a course dict holds a field
  value that is \<open>None\<close>, the empty string, or a value whose \<open>str\<close> in lower case is
  \<open>unknown\<close>, \<open>null\<close> or \<open>n/a\<close>, and only dicts without such a value stand before
  it, the next generation call is the repair call, with the prompt built from the parsed
  courses, the last three context pages and the last five recent courses; and when that
  call raises or its answer does not parse, the attempt succeeds with the parsed courses
  as they were. If every course is a dict and no field value is such a placeholder, the
  attempt succeeds with the parsed courses after the one extraction call. In both cases
  \<open>extract_courses_from_page\<close>, whose first attempt this is, returns what the attempt
  returns, in the state the attempt leaves.
\<close>

theorem extract_courses_from_page_repair:
  assumes "create_gemini_prompt pt ctx rc ov = Inr p"
    and "generate_content w (calls st) p = Some t"
    and "json_loads w (clean_response w t) = Some parsed"
    and "0 < max_retries"
  shows
    "let courses = as_course_list parsed;
         fix_prompt = Fix_prompt courses (last_n 3 ctx) (last_n 5 rc);
         after_one = st\<lparr>calls := calls st + 1, trace := trace st @ [Generate p]\<rparr>;
         after_two = st\<lparr>calls := calls st + 2,
                        trace := trace st @ [Generate p, Generate fix_prompt]\<rparr>
     in (courses = map JObj pre @ JObj kvs # rest
           \<and> \<not> contains_placeholder w pre \<and> has_placeholder w kvs \<longrightarrow>
         snd (attempt_once w pt ctx rc ov st) = after_two
         \<and> (\<exists>evs. trace (snd (extract_courses_from_page w pt ctx rc ov max_retries st))
                    = trace after_two @ evs)
         \<and> (response_unusable w (calls st + 1) fix_prompt \<longrightarrow>
              attempt_once w pt ctx rc ov st = (Inr (JArr courses), after_two)
              \<and> extract_courses_from_page w pt ctx rc ov max_retries st
                  = (JArr courses, after_two)))
        \<and> (courses = map JObj objs \<and> \<not> contains_placeholder w objs \<longrightarrow>
             attempt_once w pt ctx rc ov st = (Inr (JArr courses), after_one)
             \<and> extract_courses_from_page w pt ctx rc ov max_retries st
                 = (JArr courses, after_one))
        \<and> is_placeholder w JNull \<and> is_placeholder w (JStr [])
        \<and> (is_placeholder w (JStr s)
             \<longleftrightarrow> s = [] \<or> str_lower w s \<in> {''unknown'', ''null'', ''n/a''})"
proof -
  define courses where "courses = as_course_list parsed"
  define fix_prompt where "fix_prompt = Fix_prompt courses (last_n 3 ctx) (last_n 5 rc)"
  define after_one where
    "after_one = st\<lparr>calls := calls st + 1, trace := trace st @ [Generate p]\<rparr>"
  define after_two where
    "after_two = st\<lparr>calls := calls st + 2,
                    trace := trace st @ [Generate p, Generate fix_prompt]\<rparr>"
  have A: "snd (attempt_once w pt ctx rc ov st) = after_two
           \<and> (\<exists>evs. trace (snd (extract_courses_from_page w pt ctx rc ov max_retries st))
                    = trace after_two @ evs)
           \<and> (response_unusable w (calls st + 1) fix_prompt \<longrightarrow>
                attempt_once w pt ctx rc ov st = (Inr (JArr courses), after_two)
                \<and> extract_courses_from_page w pt ctx rc ov max_retries st
                    = (JArr courses, after_two))"
    if a: "courses = map JObj pre @ JObj kvs # rest
            \<and> \<not> contains_placeholder w pre \<and> has_placeholder w kvs"
  proof -
    from a have n: "needs_fixing w (as_course_list parsed) = Inr True"
      by (simp add: needs_fixing_first_placeholder courses_def)
    from attempt_once_repair[OF assms(1,2,3) n]
    obtain r where att: "attempt_once w pt ctx rc ov st = (r, after_two)"
      and un: "response_unusable w (calls st + 1) fix_prompt \<longrightarrow> r = Inr (JArr courses)"
      unfolding fix_prompt_def after_two_def courses_def by blast
    note f = retry_loop_first_attempt[OF assms(4) att]
    from att un f show ?thesis by auto
  qed
  have B: "attempt_once w pt ctx rc ov st = (Inr (JArr courses), after_one)
           \<and> extract_courses_from_page w pt ctx rc ov max_retries st
               = (JArr courses, after_one)"
    if b: "courses = map JObj objs \<and> \<not> contains_placeholder w objs"
  proof -
    from b have n: "needs_fixing w (as_course_list parsed) = Inr False"
      by (simp add: needs_fixing_objects courses_def)
    note att = attempt_once_no_repair[OF assms(1,2,3) n]
    from att retry_loop_first_attempt[OF assms(4) att] show ?thesis
      by (simp add: courses_def after_one_def)
  qed
  have C: "is_placeholder w JNull" "is_placeholder w (JStr [])"
    "is_placeholder w (JStr s)
       \<longleftrightarrow> s = [] \<or> str_lower w s \<in> {''unknown'', ''null'', ''n/a''}"
    by (simp_all add: is_placeholder_def py_str_def placeholder_tokens_def)
  from A B C show ?thesis
    unfolding Let_def courses_def[symmetric] fix_prompt_def[symmetric]
      after_one_def[symmetric] after_two_def[symmetric]
    by blast
qed

lemma repair_example_facts:
  "create_gemini_prompt
     \<lparr>page_number = 1, page_text_of = ''ACC 124 X ACC 125 Y Managerial accounting''\<rparr> [] [] None
     = Inr (Extract_prompt
              \<lparr>page_number = 1, page_text_of = ''ACC 124 X ACC 125 Y Managerial accounting''\<rparr>
              [] [] [])"
  "generate_content overlap_env (calls (initial_pstate Map.empty))
     (Extract_prompt
        \<lparr>page_number = 1, page_text_of = ''ACC 124 X ACC 125 Y Managerial accounting''\<rparr>
        [] [] []) = Some ''first page''"
  "json_loads overlap_env (clean_response overlap_env ''first page'')
     = Some (JArr [acc124_partial, acc125])"
  "as_course_list (JArr [acc124_partial, acc125])
     = map JObj []
       @ JObj [(''course_prefix'', JStr ''ACC''), (''course_number'', JStr ''124''),
               (''course_title'', JStr ''X''), (''course_desc'', JStr '''')]
       # [acc125]"
  "\<not> contains_placeholder overlap_env []"
  "has_placeholder overlap_env
     [(''course_prefix'', JStr ''ACC''), (''course_number'', JStr ''124''),
      (''course_title'', JStr ''X''), (''course_desc'', JStr '''')]"
  "response_unusable overlap_env (calls (initial_pstate Map.empty) + 1)
     (Fix_prompt (as_course_list (JArr [acc124_partial, acc125])) (last_n 3 []) (last_n 5 []))"
  "create_gemini_prompt \<lparr>page_number = 2, page_text_of = ''Intro to accounting''\<rparr> [] []
     (Some [acc124_partial, acc125])
     = Inr (Extract_prompt \<lparr>page_number = 2, page_text_of = ''Intro to accounting''\<rparr> [] []
              [acc124_partial, acc125])"
  "generate_content overlap_env (calls (initial_pstate Map.empty))
     (Extract_prompt \<lparr>page_number = 2, page_text_of = ''Intro to accounting''\<rparr> [] []
        [acc124_partial, acc125]) = Some ''update''"
  "json_loads overlap_env (clean_response overlap_env ''update'') = Some (JArr [acc124_complete])"
  "as_course_list (JArr [acc124_complete])
     = map JObj [[(''course_prefix'', JStr ''ACC''), (''course_number'', JStr ''124''),
                  (''course_title'', JStr ''X''), (''course_desc'', JStr ''Intro to accounting'')]]"
  "\<not> contains_placeholder overlap_env
        [[(''course_prefix'', JStr ''ACC''), (''course_number'', JStr ''124''),
          (''course_title'', JStr ''X''), (''course_desc'', JStr ''Intro to accounting'')]]"
  by code_simp+

theorem extract_courses_from_page_repair_witness:
  "has_placeholder overlap_env
     [(''course_prefix'', JStr ''ACC''), (''course_number'', JStr ''124''),
      (''course_title'', JStr ''X''), (''course_desc'', JStr '''')]
   \<and> response_unusable overlap_env 1 (Fix_prompt [acc124_partial, acc125] [] [])
   \<and> extract_courses_from_page overlap_env
        \<lparr>page_number = 1, page_text_of = ''ACC 124 X ACC 125 Y Managerial accounting''\<rparr>
        [] [] None 3 (initial_pstate Map.empty)
      = (JArr [acc124_partial, acc125],
         (initial_pstate Map.empty)
           \<lparr>calls := 2,
            trace :=
              [Generate (Extract_prompt
                 \<lparr>page_number = 1, page_text_of = ''ACC 124 X ACC 125 Y Managerial accounting''\<rparr>
                 [] [] []),
               Generate (Fix_prompt [acc124_partial, acc125] [] [])]\<rparr>)
   \<and> \<not> contains_placeholder overlap_env
        [[(''course_prefix'', JStr ''ACC''), (''course_number'', JStr ''124''),
          (''course_title'', JStr ''X''), (''course_desc'', JStr ''Intro to accounting'')]]
   \<and> extract_courses_from_page overlap_env
        \<lparr>page_number = 2, page_text_of = ''Intro to accounting''\<rparr> [] []
        (Some [acc124_partial, acc125]) 3 (initial_pstate Map.empty)
      = (JArr [acc124_complete],
         (initial_pstate Map.empty)
           \<lparr>calls := 1,
            trace :=
              [Generate (Extract_prompt \<lparr>page_number = 2, page_text_of = ''Intro to accounting''\<rparr>
                 [] [] [acc124_partial, acc125])]\<rparr>)"
proof -
  have three: "(0::int) < 3" by simp
  note a = extract_courses_from_page_repair
             [OF repair_example_facts(1) repair_example_facts(2) repair_example_facts(3) three,
              of "[]" "[(''course_prefix'', JStr ''ACC''), (''course_number'', JStr ''124''),
               (''course_title'', JStr ''X''), (''course_desc'', JStr '''')]" "[acc125]",
              unfolded Let_def]
  note b = extract_courses_from_page_repair
             [OF repair_example_facts(8) repair_example_facts(9) repair_example_facts(10) three,
              where objs = "[[(''course_prefix'', JStr ''ACC''), (''course_number'', JStr ''124''),
                  (''course_title'', JStr ''X''), (''course_desc'', JStr ''Intro to accounting'')]]",
              unfolded Let_def]
  from a repair_example_facts(4,5,6,7)
  have 1: "extract_courses_from_page overlap_env
        \<lparr>page_number = 1, page_text_of = ''ACC 124 X ACC 125 Y Managerial accounting''\<rparr>
        [] [] None 3 (initial_pstate Map.empty)
      = (JArr (as_course_list (JArr [acc124_partial, acc125])),
         (initial_pstate Map.empty)
           \<lparr>calls := calls (initial_pstate Map.empty) + 2,
            trace := trace (initial_pstate Map.empty)
              @ [Generate (Extract_prompt
                 \<lparr>page_number = 1, page_text_of = ''ACC 124 X ACC 125 Y Managerial accounting''\<rparr>
                 [] [] []),
               Generate (Fix_prompt (as_course_list (JArr [acc124_partial, acc125]))
                           (last_n 3 []) (last_n 5 []))]\<rparr>)"
    by blast
  from b repair_example_facts(11,12)
  have 2: "extract_courses_from_page overlap_env
        \<lparr>page_number = 2, page_text_of = ''Intro to accounting''\<rparr> [] []
        (Some [acc124_partial, acc125]) 3 (initial_pstate Map.empty)
      = (JArr (as_course_list (JArr [acc124_complete])),
         (initial_pstate Map.empty)
           \<lparr>calls := calls (initial_pstate Map.empty) + 1,
            trace := trace (initial_pstate Map.empty)
              @ [Generate (Extract_prompt \<lparr>page_number = 2, page_text_of = ''Intro to accounting''\<rparr>
                 [] [] [acc124_partial, acc125])]\<rparr>)"
    by blast
  have 3: "response_unusable overlap_env 1 (Fix_prompt [acc124_partial, acc125] [] [])"
    using repair_example_facts(7)
    by (simp add: as_course_list_def last_n_def initial_pstate_def)
  from 1 2 3 repair_example_facts(6,12) show ?thesis
    by (simp add: as_course_list_def last_n_def initial_pstate_def)
qed

text \<open>
  Claim C8 as stated fails when something that is not a dict stands before the course
  with the placeholder: the scan raises \<open>AttributeError\<close> on it, no repair call is made,
  the attempt counts as failed, and after the last attempt the parsed result is
  discarded.
\<close>

theorem non_dict_before_placeholder_counterexample:
  "generate_content non_dict_env 0 (Extract_prompt page_one [] [] []) = Some ''courses''
   \<and> json_loads non_dict_env (clean_response non_dict_env ''courses'')
       = Some (JArr [JStr ''Accounting'', JObj [(''course_desc'', JStr '''')]])
   \<and> result_has_placeholder non_dict_env
       [JStr ''Accounting'', JObj [(''course_desc'', JStr '''')]]
   \<and> fst (extract_courses_from_page non_dict_env page_one [] [] None 3
             (initial_pstate Map.empty)) = JArr []
   \<and> \<not> list_ex is_repair
         (trace (snd (extract_courses_from_page non_dict_env page_one [] [] None 3
                        (initial_pstate Map.empty))))"
  by code_simp

section \<open>The retry loop\<close>

lemma attempt_once_unusable:
  assumes "create_gemini_prompt pt ctx rc ov = Inr p" and "response_unusable w (calls st) p"
  shows "\<exists>e. attempt_once w pt ctx rc ov st = (Inl e, record_call p st)"
  using assms by (auto simp: attempt_once_def response_unusable_def Let_def split: option.splits)

lemma retry_loop_all_fail:
  assumes p: "create_gemini_prompt pt ctx rc ov = Inr p"
  shows "k = n - a \<Longrightarrow> n = nat mr \<Longrightarrow> \<forall>i<k. response_unusable w (calls st + i) p \<Longrightarrow>
     \<exists>evs. retry_loop w pt ctx rc ov mr [a..<n] st
              = (JArr [], st\<lparr>calls := calls st + k, trace := trace st @ evs\<rparr>)
         \<and> filter is_generate evs = replicate k (Generate p) \<and> well_spaced evs"
proof (induction k arbitrary: a st)
  case 0
  then show ?case by (auto intro!: exI[of _ "[]"])
next
  case (Suc k)
  then have lt: "a < n" by simp
  then have upt: "[a..<n] = a # [Suc a..<n]" by (simp add: upt_conv_Cons)
  from Suc.prems(3)[rule_format, of 0] have "response_unusable w (calls st) p" by simp
  from attempt_once_unusable[OF p this]
  obtain e where att: "attempt_once w pt ctx rc ov st = (Inl e, record_call p st)" by blast
  show ?case
  proof (cases "int a = mr - 1")
    case True
    with Suc.prems lt have "k = 0" by linarith
    with True att upt show ?thesis
      by (auto simp: record_call_def intro!: exI[of _ "[Generate p]"])
  next
    case False
    define d :: nat where "d = (if e = JSONDecodeError then 1 else 2)"
    define st1 where "st1 = (record_call p st)\<lparr>trace := trace (record_call p st) @ [Sleep d]\<rparr>"
    have k: "k = n - Suc a" using Suc.prems by simp
    have "\<forall>i<k. response_unusable w (calls st1 + i) p"
    proof (intro allI impI)
      fix i assume "i < k"
      with Suc.prems(3)[rule_format, of "Suc i"] show "response_unusable w (calls st1 + i) p"
        by (simp add: st1_def record_call_def)
    qed
    from Suc.IH[OF k Suc.prems(2) this]
    obtain evs where evs: "retry_loop w pt ctx rc ov mr [Suc a..<n] st1
              = (JArr [], st1\<lparr>calls := calls st1 + k, trace := trace st1 @ evs\<rparr>)"
      "filter is_generate evs = replicate k (Generate p)" "well_spaced evs"
      by blast
    have ws: "well_spaced (Generate p # Sleep d # evs)"
      using evs(3) by (simp add: d_def)
    have "retry_loop w pt ctx rc ov mr [a..<n] st
            = (JArr [], st\<lparr>calls := calls st + Suc k,
                 trace := trace st @ (Generate p # Sleep d # evs)\<rparr>)"
      using att False evs(1) upt by (simp add: st1_def d_def record_call_def)
    with ws evs(2) show ?thesis
      by (intro exI[of _ "Generate p # Sleep d # evs"]) simp
  qed
qed

text \<open>
  Claim C5. When the prompt can be built and each of the \<open>max_retries\<close> attempts meets
  a generation call that raises or answers with text that does not parse,
  \<open>extract_courses_from_page\<close> returns the empty list (it has no way to raise), having
  made exactly \<open>max_retries\<close> generation calls, all with that prompt, with a sleep of one
  second or more between any two of them.
\<close>

theorem extract_courses_from_page_retry_ceiling:
  assumes "create_gemini_prompt pt ctx rc ov = Inr p"
    and "\<forall>i<nat max_retries. response_unusable w (calls st + i) p"
  shows "\<exists>evs. extract_courses_from_page w pt ctx rc ov max_retries st
              = (JArr [], st\<lparr>calls := calls st + nat max_retries, trace := trace st @ evs\<rparr>)
         \<and> filter is_generate evs = replicate (nat max_retries) (Generate p)
         \<and> well_spaced evs"
  using retry_loop_all_fail[OF assms(1), of "nat max_retries" "nat max_retries" 0 max_retries w st]
    assms(2)
  unfolding extract_courses_from_page_def by auto

theorem extract_courses_from_page_retry_ceiling_witness:
  "create_gemini_prompt page_one [] [] None = Inr (Extract_prompt page_one [] [] [])
   \<and> response_unusable no_json_env 0 (Extract_prompt page_one [] [] [])
   \<and> response_unusable no_json_env 1 (Extract_prompt page_one [] [] [])
   \<and> response_unusable no_json_env 2 (Extract_prompt page_one [] [] [])
   \<and> (\<exists>evs. extract_courses_from_page no_json_env page_one [] [] None 3 (initial_pstate Map.empty)
              = (JArr [], (initial_pstate Map.empty)\<lparr>calls := 3, trace := evs\<rparr>)
         \<and> filter is_generate evs = replicate 3 (Generate (Extract_prompt page_one [] [] []))
         \<and> well_spaced evs)"
proof -
  have h1: "create_gemini_prompt page_one [] [] None = Inr (Extract_prompt page_one [] [] [])"
    by (simp add: create_gemini_prompt_def last_n_def)
  have h2: "response_unusable no_json_env n p" for n p
    by (simp add: response_unusable_def no_json_env_def)
  have h3: "\<forall>i<nat 3. response_unusable no_json_env (calls (initial_pstate Map.empty) + i)
                (Extract_prompt page_one [] [] [])"
    by (simp add: h2)
  show ?thesis
    using extract_courses_from_page_retry_ceiling[OF h1 h3] h1 h2
    by (simp add: initial_pstate_def)
qed

section \<open>The duplicate filter of the PDF extractor\<close>

lemma first_of_each_key_subset: "set (first_of_each_key key cs) \<subseteq> set cs"
  by (induction key cs rule: first_of_each_key.induct) auto

lemma first_of_each_key_distinct: "distinct (map key (first_of_each_key key cs))"
proof (induction key cs rule: first_of_each_key.induct)
  case (1 key)
  show ?case by simp
next
  case (2 key c cs)
  have "key c \<notin> key ` set (first_of_each_key key (filter (\<lambda>d. key d \<noteq> key c) cs))"
    using first_of_each_key_subset[of key "filter (\<lambda>d. key d \<noteq> key c) cs"] by auto
  with 2 show ?case by simp
qed

lemma course_key_dict: "is_dict c \<Longrightarrow> \<exists>k. course_key w c = Inr k"
  by (cases c) (simp_all add: is_dict_def course_key_def fields_of_def)

lemma course_key_non_dict: "\<not> is_dict c \<Longrightarrow> course_key w c = Inl AttributeError"
  by (cases c) (simp_all add: is_dict_def course_key_def fields_of_def)

lemma dedup_loop_first:
  "list_all is_dict cs \<Longrightarrow>
   dedup_loop w cs seen acc
     = Inr (acc @ first_of_each_key (course_key w)
                    (filter (\<lambda>c. course_key w c \<notin> Inr ` seen) cs))"
proof (induction cs arbitrary: seen acc)
  case Nil
  show ?case by simp
next
  case (Cons c cs)
  from Cons.prems have d: "is_dict c" and ds: "list_all is_dict cs" by simp_all
  from course_key_dict[OF d] obtain k where k: "course_key w c = Inr k" by blast
  show ?case
  proof (cases "k \<in> seen")
    case True
    with k Cons.IH[OF ds, of seen acc] show ?thesis by auto
  next
    case False
    have f: "filter (\<lambda>d. course_key w d \<noteq> Inr k) (filter (\<lambda>c. course_key w c \<notin> Inr ` seen) cs)
             = filter (\<lambda>c. course_key w c \<notin> Inr ` insert k seen) cs"
      by (induction cs) auto
    from False have "Inr k \<notin> (Inr ` seen :: (py_error + string) set)" by (simp add: image_iff)
    with k False Cons.IH[OF ds, of "insert k seen" "acc @ [c]"] f show ?thesis
      by simp
  qed
qed

lemma dedup_loop_non_dict:
  "\<not> list_all is_dict cs \<Longrightarrow> dedup_loop w cs seen acc = Inl AttributeError"
proof (induction cs arbitrary: seen acc)
  case Nil
  then show ?case by simp
next
  case (Cons c cs)
  show ?case
  proof (cases "is_dict c")
    case False
    then show ?thesis by (simp add: course_key_non_dict)
  next
    case True
    with Cons.prems have "\<not> list_all is_dict cs" by simp
    from Cons.IH[OF this] course_key_dict[OF True, of w] show ?thesis by auto
  qed
qed

lemma deduplicate_courses_first:
  "deduplicate_courses w cs
     = (if list_all is_dict cs then Inr (first_of_each_key (course_key w) cs)
        else Inl AttributeError)"
  using dedup_loop_first[of cs w "{}" "[]"] dedup_loop_non_dict[of cs w "{}" "[]"]
  by (simp add: deduplicate_courses_def)

lemma deduplicate_courses_distinct:
  "deduplicate_courses w cs = Inr ys \<Longrightarrow> distinct (map (course_key w) ys)"
  using first_of_each_key_distinct[of "course_key w" cs]
  by (auto simp: deduplicate_courses_first split: if_splits)

lemma add_courses_distinct:
  assumes "add_courses w courses v = Inr v'" and "distinct (map (course_key w) (all_courses v))"
  shows "distinct (map (course_key w) (all_courses v'))"
proof (cases "truthy courses")
  case False
  with assms show ?thesis by (simp add: add_courses_def)
next
  case True
  with assms(1) obtain items u where "deduplicate_courses w (all_courses v @ items) = Inr u"
    and "all_courses v' = u"
    by (auto simp: add_courses_def split: sum.splits)
  then show ?thesis using deduplicate_courses_distinct by simp
qed

section \<open>The files a run of the PDF extractor writes\<close>

lemma write_json_writes:
  "write_json w d p st = (ok, st') \<Longrightarrow>
   writes_of (trace st')
     = writes_of (trace st) @ (if save_ends w (saves st) = Completes then [(p, d)] else [])
   \<and> saves st' = Suc (saves st)"
  by (auto simp: write_json_def writes_of_append split: save_end.splits)

lemma checkpoint_data_saves:
  "saves a = saves b \<Longrightarrow> checkpoint_data w cs pdf i T a = checkpoint_data w cs pdf i T b"
  by (simp add: checkpoint_data_def)

lemma final_validation_cases:
  "final_validation w cs = (if cs = [] then Inr [] else Inl NameError)"
  by (cases cs) (simp_all add: load_global_def module_globals_def)

lemma process_page_writes:
  assumes "process_page w pdf out T (i, pg) v st = (r, st')"
    and "distinct (map (course_key w) (all_courses v))"
  shows "(\<exists>e. r = Inl e \<and> writes_of (trace st') = writes_of (trace st))
         \<or> (\<exists>v'. r = Inr v' \<and> saves st' = Suc (saves st)
                \<and> distinct (map (course_key w) (all_courses v'))
                \<and> writes_of (trace st')
                    = writes_of (trace st)
                      @ (if save_ends w (saves st) = Completes
                         then [(out, checkpoint_data w (all_courses v') pdf i T st)] else []))"
proof -
  obtain courses st1 where e: "extract_courses_from_page w pg (last_n 3 (context_pages v))
      (last_n 5 (recent_courses v))
      (if 2 \<le> length (all_courses v) then Some (last_n 2 (all_courses v)) else None) 3 st
      = (courses, st1)"
    by (cases "extract_courses_from_page w pg (last_n 3 (context_pages v))
      (last_n 5 (recent_courses v))
      (if 2 \<le> length (all_courses v) then Some (last_n 2 (all_courses v)) else None) 3 st")
  note q = extract_page_quiet[OF e]
  note w1 = quiet_step_writes[OF q]
  note s1 = quiet_step_saves[OF q]
  show ?thesis
  proof (cases "add_courses w courses v")
    case (Inl err)
    with assms(1) e have "r = Inl err" "st' = st1"
      by (simp_all add: process_page_def Let_def)
    with w1 show ?thesis by simp
  next
    case (Inr v1)
    note d1 = add_courses_distinct[OF Inr assms(2)]
    define v3 where "v3 = v1\<lparr>context_pages :=
                                  (if 3 < length (context_pages v1 @ [pg])
                                   then last_n 3 (context_pages v1 @ [pg]) else context_pages v1 @ [pg]),
                                recent_courses :=
                                  (if 5 < length (recent_courses v1)
                                   then last_n 5 (recent_courses v1) else recent_courses v1)\<rparr>"
    have a3: "all_courses v3 = all_courses v1" by (simp add: v3_def)
    obtain ok st2 where s: "write_json w (checkpoint_data w (all_courses v3) pdf i T st1) out st1 = (ok, st2)"
      by (cases "write_json w (checkpoint_data w (all_courses v3) pdf i T st1) out st1")
    have "process_page w pdf out T (i, pg) v st = (Inr v3, st2)"
      using e Inr s
      by (simp add: process_page_def Let_def v3_def save_incremental_results_def)
    with assms(1) have res: "r = Inr v3" "st' = st2"
      by simp_all
    have c: "checkpoint_data w (all_courses v3) pdf i T st1
             = checkpoint_data w (all_courses v3) pdf i T st"
      using s1 by (rule checkpoint_data_saves)
    from write_json_writes[OF s] w1 s1 c
    have "writes_of (trace st') = writes_of (trace st)
            @ (if save_ends w (saves st) = Completes
               then [(out, checkpoint_data w (all_courses v3) pdf i T st)] else [])"
      and "saves st' = Suc (saves st)"
      by (simp_all add: res)
    with res d1 a3 show ?thesis by simp
  qed
qed

lemma saved_pages_from_Suc:
  "saved_pages_from w a (Suc m)
     = (if save_ends w a = Completes then [int a + 1] else []) @ saved_pages_from w (Suc a) m"
  by (simp add: saved_pages_from_def upt_conv_Cons del: upt_Suc)

lemma numbered_pages_Cons:
  "zip (map int [Suc a..<Suc a + length (pg # ps)]) (pg # ps)
     = (int a + 1, pg) # zip (map int [Suc (Suc a)..<Suc (Suc a) + length ps]) ps"
  by (simp add: upt_conv_Cons del: upt_Suc)

lemma pages_loop_writes:
  assumes "pages_loop w pdf out T (zip (map int [Suc a..<Suc a + length ps]) ps) v st = (r, st')"
    and "saves st = a"
    and "distinct (map (course_key w) (all_courses v))"
  shows "\<exists>m ws. m \<le> length ps \<and> writes_of (trace st') = writes_of (trace st) @ ws
            \<and> list_all2 (loop_write_ok w pdf out T) (saved_pages_from w a m) ws
            \<and> (\<forall>v'. r = Inr v' \<longrightarrow> m = length ps \<and> saves st' = a + m)"
  using assms
proof (induction ps arbitrary: a v st)
  case Nil
  then show ?case
    by (intro exI[of _ 0] exI[of _ "[]"]) (auto simp: saved_pages_from_def)
next
  case (Cons pg ps)
  obtain r1 st1 where p: "process_page w pdf out T (int a + 1, pg) v st = (r1, st1)"
    by (cases "process_page w pdf out T (int a + 1, pg) v st")
  from Cons.prems(1) have l: "pages_loop w pdf out T
      ((int a + 1, pg) # zip (map int [Suc (Suc a)..<Suc (Suc a) + length ps]) ps) v st = (r, st')"
    by (simp only: numbered_pages_Cons)
  from process_page_writes[OF p Cons.prems(3)]
  show ?case
  proof
    assume "\<exists>e. r1 = Inl e \<and> writes_of (trace st1) = writes_of (trace st)"
    then obtain e where e: "r1 = Inl e" "writes_of (trace st1) = writes_of (trace st)" by blast
    with l p have "r = Inl e" "st' = st1" by simp_all
    with e show ?thesis
      by (intro exI[of _ 0] exI[of _ "[]"]) (simp add: saved_pages_from_def)
  next
    assume "\<exists>v'. r1 = Inr v' \<and> saves st1 = Suc (saves st)
                \<and> distinct (map (course_key w) (all_courses v'))
                \<and> writes_of (trace st1)
                    = writes_of (trace st)
                      @ (if save_ends w (saves st) = Completes
                         then [(out, checkpoint_data w (all_courses v') pdf (int a + 1) T st)] else [])"
    then obtain v1 where v1: "r1 = Inr v1" "saves st1 = Suc a"
      "distinct (map (course_key w) (all_courses v1))"
      "writes_of (trace st1)
         = writes_of (trace st)
           @ (if save_ends w a = Completes
              then [(out, checkpoint_data w (all_courses v1) pdf (int a + 1) T st)] else [])"
      using Cons.prems(2) by auto
    define ws1 where "ws1 = (if save_ends w a = Completes
              then [(out, checkpoint_data w (all_courses v1) pdf (int a + 1) T st)] else [])"
    from l p v1(1) have l2: "pages_loop w pdf out T
        (zip (map int [Suc (Suc a)..<Suc (Suc a) + length ps]) ps) v1 st1 = (r, st')"
      by simp
    from Cons.IH[OF l2 v1(2) v1(3)]
    obtain m ws2 where m: "m \<le> length ps" "writes_of (trace st') = writes_of (trace st1) @ ws2"
      "list_all2 (loop_write_ok w pdf out T) (saved_pages_from w (Suc a) m) ws2"
      "\<forall>v'. r = Inr v' \<longrightarrow> m = length ps \<and> saves st' = Suc a + m"
      by blast
    have 1: "list_all2 (loop_write_ok w pdf out T)
               (if save_ends w a = Completes then [int a + 1] else []) ws1"
      using v1(3) by (auto simp: ws1_def loop_write_ok_def)
    have "list_all2 (loop_write_ok w pdf out T) (saved_pages_from w a (Suc m)) (ws1 @ ws2)"
      unfolding saved_pages_from_Suc using 1 m(3) by (rule list_all2_appendI)
    moreover have "writes_of (trace st') = writes_of (trace st) @ (ws1 @ ws2)"
      using m(2) v1(4) by (simp add: ws1_def)
    ultimately show ?thesis
      using m(1,4) by (intro exI[of _ "Suc m"] exI[of _ "ws1 @ ws2"]) simp
  qed
qed

lemma run_writes:
  "\<exists>m cps fin.
      writes_of (trace (snd (extract_courses_from_pdf w pdf out (initial_pstate fs)))) = cps @ fin
      \<and> int m \<le> page_count w pdf
      \<and> list_all2 (loop_write_ok w pdf out (page_count w pdf)) (saved_pages w m) cps
      \<and> list_all (final_write_ok w pdf out (page_count w pdf)) fin
      \<and> length fin \<le> 1
      \<and> (fin = [] \<or> int m = page_count w pdf)"
proof (cases "api_key w = None \<or> api_key w = Some [] \<or> extract_text_from_pdf w pdf = None
              \<or> extract_text_from_pdf w pdf = Some []")
  case True
  then have "snd (extract_courses_from_pdf w pdf out (initial_pstate fs)) = initial_pstate fs"
    by (auto simp: extract_courses_from_pdf_def)
  then show ?thesis
    by (intro exI[of _ 0] exI[of _ "[]"])
       (simp add: initial_pstate_def saved_pages_def saved_pages_from_def page_count_def
          split: option.splits)
next
  case False
  then obtain ps where ps: "extract_text_from_pdf w pdf = Some ps" "ps \<noteq> []"
    and key: "api_key w \<noteq> None" "api_key w \<noteq> Some []"
    by auto
  define T where "T = int (length ps)"
  have T: "page_count w pdf = T" by (simp add: page_count_def ps T_def)
  define st0 where "st0 = initial_pstate fs"
  define nps where "nps = zip (map int [1..<Suc (length ps)]) ps"
  define v0 where "v0 = \<lparr>all_courses = [], context_pages = [], recent_courses = []\<rparr>"
  obtain r st1 where l: "pages_loop w pdf out T nps v0 st0 = (r, st1)"
    by (cases "pages_loop w pdf out T nps v0 st0")
  have l': "pages_loop w pdf out T (zip (map int [Suc 0..<Suc 0 + length ps]) ps) v0 st0 = (r, st1)"
    using l by (simp add: nps_def)
  have s0: "saves st0 = 0" "writes_of (trace st0) = []"
    by (simp_all add: st0_def initial_pstate_def)
  have "distinct (map (course_key w) (all_courses v0))" by (simp add: v0_def)
  from pages_loop_writes[OF l' s0(1) this]
  obtain m ws1 where ws1: "m \<le> length ps" "writes_of (trace st1) = ws1"
    "list_all2 (loop_write_ok w pdf out T) (saved_pages w m) ws1"
    "\<forall>v'. r = Inr v' \<longrightarrow> m = length ps \<and> saves st1 = m"
    using s0(2) by (auto simp: saved_pages_def)
  have mT: "int m \<le> T" using ws1(1) by (simp add: T_def)
  show ?thesis
  proof (cases r)
    case (Inl e)
    with l ps key have "snd (extract_courses_from_pdf w pdf out (initial_pstate fs)) = st1"
      by (auto simp add: extract_courses_from_pdf_def T_def nps_def v0_def st0_def simp del: upt_Suc)
    with ws1 mT T show ?thesis
      by (intro exI[of _ m] exI[of _ ws1] exI[of _ "[]"]) simp
  next
    case (Inr v)
    show ?thesis
    proof (cases "all_courses v = []")
      case False
      with Inr l ps key have "snd (extract_courses_from_pdf w pdf out (initial_pstate fs)) = st1"
        by (auto simp add: extract_courses_from_pdf_def T_def nps_def v0_def st0_def
              final_validation_cases simp del: upt_Suc)
      with ws1 mT T show ?thesis
        by (intro exI[of _ m] exI[of _ ws1] exI[of _ "[]"]) simp
    next
      case True
      obtain ok st2 where s: "write_json w (final_data w [] pdf T st1) out st1 = (ok, st2)"
        by (cases "write_json w (final_data w [] pdf T st1) out st1")
      define fin where "fin = (if save_ends w (saves st1) = Completes
                               then [(out, final_data w [] pdf T st1)] else [])"
      from True Inr l ps key s
      have "snd (extract_courses_from_pdf w pdf out (initial_pstate fs)) = st2"
        by (auto simp add: extract_courses_from_pdf_def T_def nps_def v0_def st0_def
              final_validation_cases simp del: upt_Suc)
      moreover from write_json_writes[OF s] ws1(2)
      have "writes_of (trace st2) = ws1 @ fin"
        by (simp add: fin_def)
      moreover have "list_all (final_write_ok w pdf out T) fin" "length fin \<le> 1"
        by (auto simp: fin_def final_write_ok_def)
      moreover from ws1(4) Inr have "int m = T" by (simp add: T_def)
      ultimately show ?thesis using ws1(3) T
        by (intro exI[of _ m] exI[of _ ws1] exI[of _ fin]) simp
    qed
  qed
qed

lemma checkpoint_saved:
  "loop_write_ok w pdf out T i x \<Longrightarrow> checkpoint_as_claimed w pdf T i (snd x)"
  by (cases x)
     (auto simp: loop_write_ok_def checkpoint_as_claimed_def checkpoint_data_def member_def
        member_names_def metadata_ok_def progress_status_def)

lemma final_saved:
  "final_write_ok w pdf out T x \<Longrightarrow> final_as_saved w pdf T (snd x)"
  by (cases x)
     (auto simp: final_write_ok_def final_as_saved_def final_data_def member_def
        member_names_def metadata_ok_def)

lemma checkpoint_courses:
  "loop_write_ok w pdf out T i x \<Longrightarrow> distinct (map (course_key w) (doc_courses (snd x)))"
  by (cases x) (auto simp: loop_write_ok_def checkpoint_data_def doc_courses_def member_def)

lemma final_courses:
  "final_write_ok w pdf out T x \<Longrightarrow> distinct (map (course_key w) (doc_courses (snd x)))"
  by (cases x) (auto simp: final_write_ok_def final_data_def doc_courses_def member_def)

lemma pdf_artifacts_unique_keys:
  "list_all (\<lambda>d. distinct (map (course_key w) (doc_courses d)))
     (artifacts w pdf_path output_path fs)"
proof -
  from run_writes[of w pdf_path output_path fs]
  obtain m cps fin where ws:
    "writes_of (trace (snd (extract_courses_from_pdf w pdf_path output_path
        (initial_pstate fs)))) = cps @ fin"
    "list_all2 (loop_write_ok w pdf_path output_path (page_count w pdf_path)) (saved_pages w m) cps"
    "list_all (final_write_ok w pdf_path output_path (page_count w pdf_path)) fin"
    by blast
  have "distinct (map (course_key w) (doc_courses (snd x)))" if "x \<in> set cps" for x
  proof -
    from that obtain j where j: "j < length cps" "cps ! j = x"
      by (auto simp: in_set_conv_nth)
    with ws(2) have "loop_write_ok w pdf_path output_path (page_count w pdf_path)
                       (saved_pages w m ! j) x"
      by (auto simp: list_all2_conv_all_nth)
    then show ?thesis by (rule checkpoint_courses)
  qed
  then have "\<forall>x\<in>set cps. distinct (map (course_key w) (doc_courses (snd x)))" by blast
  moreover from ws(3) have "\<forall>x\<in>set fin. distinct (map (course_key w) (doc_courses (snd x)))"
    by (auto simp: list_all_iff dest: final_courses)
  ultimately show ?thesis using ws(1) by (auto simp: artifacts_def list_all_iff)
qed

lemma written_key_course_key:
  "written_key a = written_key b \<Longrightarrow> course_key w a = course_key w b"
  by (cases a; cases b) (simp_all add: written_key_def course_key_def fields_of_def)

lemma distinct_written_key:
  assumes "distinct (map (course_key w) ys)"
  shows "distinct (map written_key ys)"
proof -
  have "inj_on written_key (set ys)"
  proof (rule inj_onI)
    fix a b assume ab: "a \<in> set ys" "b \<in> set ys" "written_key a = written_key b"
    from ab(3) have "course_key w a = course_key w b" by (rule written_key_course_key)
    moreover from assms have "inj_on (course_key w) (set ys)" by (simp add: distinct_map)
    ultimately show "a = b" using ab(1,2) by (rule_tac inj_onD)
  qed
  moreover from assms have "distinct ys" by (simp add: distinct_map)
  ultimately show ?thesis by (simp add: distinct_map)
qed

lemma pdf_artifacts_unique_pairs:
  "list_all (\<lambda>d. distinct (map written_key (doc_courses d)))
     (artifacts w pdf_path output_path fs)"
  using pdf_artifacts_unique_keys[of w pdf_path output_path fs]
  by (auto simp: list_all_iff intro: distinct_written_key)

lemma overlap_run_loop:
  "case pages_loop overlap_env ''courses.pdf'' ''courses_extracted.json'' 2
          [(1, \<lparr>page_number = 1, page_text_of = ''ACC 124 X ACC 125 Y Managerial accounting''\<rparr>),
           (2, \<lparr>page_number = 2, page_text_of = ''Intro to accounting''\<rparr>)]
          \<lparr>all_courses = [], context_pages = [], recent_courses = []\<rparr>
          (initial_pstate Map.empty) of
     (Inr v, st1) \<Rightarrow> all_courses v = [acc124_partial, acc125]
   | (Inl e, st1) \<Rightarrow> False"
  by code_simp

lemma overlap_run_pages:
  "extract_text_from_pdf overlap_env ''courses.pdf''
     = Some [\<lparr>page_number = 1, page_text_of = ''ACC 124 X ACC 125 Y Managerial accounting''\<rparr>,
             \<lparr>page_number = 2, page_text_of = ''Intro to accounting''\<rparr>]"
  by code_simp

section \<open>Saving over the previous file\<close>

lemma fold_writes:
  "fs p = Some s \<Longrightarrow> fold fs_step (map (Write p) cs) fs p = Some (s @ concat cs)"
  by (induction cs arbitrary: fs s) simp_all

lemma fold_writes_other: "q \<noteq> p \<Longrightarrow> fold fs_step (map (Write p) cs) fs q = fs q"
  by (induction cs arbitrary: fs) simp_all

lemma run_write_ops: "run_ops (write_ops p cs) fs = fs(p \<mapsto> concat cs)"
proof (rule ext)
  fix q
  show "run_ops (write_ops p cs) fs q = (fs(p \<mapsto> concat cs)) q"
  proof (cases "q = p")
    case True
    then show ?thesis
      using fold_writes[of "fs(p \<mapsto> [])" p "[]" cs]
      by (simp add: run_ops_def write_ops_def)
  next
    case False
    then show ?thesis by (simp add: run_ops_def write_ops_def fold_writes_other)
  qed
qed

lemma stopped_after_Suc: "stopped_after (Suc k) p cs fs = fs(p \<mapsto> concat (take k cs))"
  using run_write_ops[of p "take k cs" fs]
  by (simp add: stopped_after_def write_ops_def take_map)

lemma stopped_after_0: "stopped_after 0 p cs fs = fs"
  by (simp add: stopped_after_def run_ops_def)

lemma stopped_after_other: "q \<noteq> p \<Longrightarrow> stopped_after k p cs fs q = fs q"
  by (cases k) (simp_all add: stopped_after_Suc stopped_after_0)

text \<open>
  Claim C3, as the code has it. A checkpoint save of the PDF extractor
  (\<open>save_incremental_results\<close>) or of the Manoa crawler (\<open>save_to_json\<close>) works on the
  output file itself. A save that completes leaves there the dump of the full current
  data, whatever the file held before (nothing is appended to the old content), and
  reports success. A save whose \<open>open\<close> raises leaves the files as they were. A save
  whose dump raises after \<open>k\<close> chunks leaves at the output path the first \<open>k\<close> chunks
  of the new data and no longer the previous data, and reports failure (\<open>False\<close>, or
  the error message of the crawler); these are the files of the write stopped after
  \<open>k + 1\<close> of its operations. A write stopped at any moment, as by a kill of the
  process, has touched no other path (there is no temporary file); before its first
  operation the files are as they were, and from the moment the file is opened it holds
  the chunks written so far.
\<close>

theorem save_overwrites_in_place:
  "fst (save_incremental_results w cs pdf_path output_path i n st)
     = (save_ends w (saves st) = Completes)
   \<and> files (snd (save_incremental_results w cs pdf_path output_path i n st))
     = (case save_ends w (saves st) of
          Open_raises \<Rightarrow> files st
        | Dump_raises k \<Rightarrow>
            (files st)(output_path \<mapsto>
               concat (take k (json_dump w (checkpoint_data w cs pdf_path i n st))))
        | Completes \<Rightarrow>
            (files st)(output_path \<mapsto>
               concat (json_dump w (checkpoint_data w cs pdf_path i n st))))
   \<and> (save_ends w (saves st) = Dump_raises k \<longrightarrow>
        files (snd (save_incremental_results w cs pdf_path output_path i n st))
          = stopped_after (Suc k) output_path
              (json_dump w (checkpoint_data w cs pdf_path i n st)) (files st))
   \<and> crawl_files (save_to_json m data output_path cst)
     = (case manoa_save_ends m (crawl_saves cst) of
          Open_raises \<Rightarrow> crawl_files cst
        | Dump_raises k \<Rightarrow>
            (crawl_files cst)(output_path \<mapsto> concat (take k (manoa_dump m data)))
        | Completes \<Rightarrow> (crawl_files cst)(output_path \<mapsto> concat (manoa_dump m data)))
   \<and> crawl_log (save_to_json m data output_path cst)
     = crawl_log cst
       @ [if manoa_save_ends m (crawl_saves cst) = Completes
          then Wrote_file output_path data else Save_error]
   \<and> (manoa_save_ends m (crawl_saves cst) = Dump_raises k \<longrightarrow>
        crawl_files (save_to_json m data output_path cst)
          = stopped_after (Suc k) output_path (manoa_dump m data) (crawl_files cst))
   \<and> (q \<noteq> output_path \<longrightarrow> stopped_after k output_path chunks fs q = fs q)
   \<and> stopped_after 0 output_path chunks fs = fs
   \<and> stopped_after (Suc k) output_path chunks fs output_path = Some (concat (take k chunks))"
proof (intro conjI impI)
  show "fst (save_incremental_results w cs pdf_path output_path i n st)
          = (save_ends w (saves st) = Completes)"
    by (simp add: save_incremental_results_def write_json_def split: save_end.splits)
  show "files (snd (save_incremental_results w cs pdf_path output_path i n st))
     = (case save_ends w (saves st) of
          Open_raises \<Rightarrow> files st
        | Dump_raises k \<Rightarrow>
            (files st)(output_path \<mapsto>
               concat (take k (json_dump w (checkpoint_data w cs pdf_path i n st))))
        | Completes \<Rightarrow>
            (files st)(output_path \<mapsto>
               concat (json_dump w (checkpoint_data w cs pdf_path i n st))))"
    by (simp add: save_incremental_results_def write_json_def run_write_ops stopped_after_Suc
          split: save_end.splits)
  show "crawl_files (save_to_json m data output_path cst)
     = (case manoa_save_ends m (crawl_saves cst) of
          Open_raises \<Rightarrow> crawl_files cst
        | Dump_raises k \<Rightarrow>
            (crawl_files cst)(output_path \<mapsto> concat (take k (manoa_dump m data)))
        | Completes \<Rightarrow> (crawl_files cst)(output_path \<mapsto> concat (manoa_dump m data)))"
    by (simp add: save_to_json_def run_write_ops stopped_after_Suc split: save_end.splits)
  show "crawl_log (save_to_json m data output_path cst)
     = crawl_log cst
       @ [if manoa_save_ends m (crawl_saves cst) = Completes
          then Wrote_file output_path data else Save_error]"
    by (simp add: save_to_json_def split: save_end.splits)
  show "stopped_after 0 output_path chunks fs = fs"
    by (simp add: stopped_after_def run_ops_def)
  show "stopped_after (Suc k) output_path chunks fs output_path = Some (concat (take k chunks))"
    by (simp add: stopped_after_Suc)
next
  assume "save_ends w (saves st) = Dump_raises k"
  then show "files (snd (save_incremental_results w cs pdf_path output_path i n st))
          = stopped_after (Suc k) output_path
              (json_dump w (checkpoint_data w cs pdf_path i n st)) (files st)"
    by (simp add: save_incremental_results_def write_json_def)
next
  assume "manoa_save_ends m (crawl_saves cst) = Dump_raises k"
  then show "crawl_files (save_to_json m data output_path cst)
          = stopped_after (Suc k) output_path (manoa_dump m data) (crawl_files cst)"
    by (simp add: save_to_json_def)
next
  assume "q \<noteq> output_path"
  then show "stopped_after k output_path chunks fs q = fs q"
    by (rule stopped_after_other)
qed

lemma broken_dump_facts:
  "save_ends broken_dump_env
     (saves (initial_pstate [''courses_extracted.json'' \<mapsto> ''[1]''])) = Dump_raises 1"
  "manoa_save_ends (demo_crawl_env\<lparr>manoa_save_ends := (\<lambda>n. Dump_raises 1)\<rparr>)
     (crawl_saves demo_crawl) = Dump_raises 1"
  "json_dump broken_dump_env
     (checkpoint_data broken_dump_env [] ''courses.pdf'' 1 1
        (initial_pstate [''courses_extracted.json'' \<mapsto> ''[1]''])) = [''{'', ''}'']"
  "manoa_dump (demo_crawl_env\<lparr>manoa_save_ends := (\<lambda>n. Dump_raises 1)\<rparr>) [] = [''['', '']'']"
  by (simp_all add: broken_dump_env_def no_json_env_def demo_crawl_env_def)

theorem save_overwrites_in_place_witness:
  "save_ends broken_dump_env
     (saves (initial_pstate [''courses_extracted.json'' \<mapsto> ''[1]''])) = Dump_raises 1
   \<and> files (snd (save_incremental_results broken_dump_env [] ''courses.pdf''
                    ''courses_extracted.json'' 1 1
                    (initial_pstate [''courses_extracted.json'' \<mapsto> ''[1]''])))
       = stopped_after 2 ''courses_extracted.json'' [''{'', ''}'']
           [''courses_extracted.json'' \<mapsto> ''[1]'']
   \<and> manoa_save_ends (demo_crawl_env\<lparr>manoa_save_ends := (\<lambda>n. Dump_raises 1)\<rparr>)
       (crawl_saves demo_crawl) = Dump_raises 1
   \<and> crawl_files (save_to_json (demo_crawl_env\<lparr>manoa_save_ends := (\<lambda>n. Dump_raises 1)\<rparr>) []
                     ''courses_extracted.json'' demo_crawl)
       = stopped_after 2 ''courses_extracted.json'' [''['', '']''] (crawl_files demo_crawl)
   \<and> ''courses_extracted.json.tmp'' \<noteq> ''courses_extracted.json''
   \<and> stopped_after 1 ''courses_extracted.json'' [''{'', ''}'']
        [''courses_extracted.json'' \<mapsto> ''[1]''] ''courses_extracted.json.tmp'' = None
   \<and> stopped_after 2 ''courses_extracted.json'' [''{'', ''}'']
        [''courses_extracted.json'' \<mapsto> ''[1]''] ''courses_extracted.json'' = Some ''{''"
  using save_overwrites_in_place
          [where w = broken_dump_env and cs = "[]" and pdf_path = "''courses.pdf''"
             and i = 1 and n = 1
             and st = "initial_pstate [''courses_extracted.json'' \<mapsto> ''[1]'']"
             and m = "demo_crawl_env\<lparr>manoa_save_ends := (\<lambda>n. Dump_raises 1)\<rparr>"
             and data = "[]" and cst = demo_crawl
             and output_path = "''courses_extracted.json''"
             and q = "''courses_extracted.json.tmp''" and k = 1 and chunks = "[''{'', ''}'']"
             and fs = "[''courses_extracted.json'' \<mapsto> ''[1]'']"]
    broken_dump_facts
  by (simp add: numeral_2_eq_2 initial_pstate_def stopped_after_Suc)

text \<open>
  Claim C3 as stated fails. A checkpoint save whose dump raises after its first chunk
  leaves that chunk at the output path, and a save killed right after it has opened its
  file leaves the file empty: neither is the previous checkpoint or the new one.
\<close>

theorem killed_save_counterexample:
  "\<not> save_as_claimed broken_dump_env [] ''courses.pdf'' ''courses_extracted.json'' 1 1
        (initial_pstate [''courses_extracted.json'' \<mapsto> ''[1]''])
   \<and> files (snd (save_incremental_results broken_dump_env [] ''courses.pdf''
                    ''courses_extracted.json'' 1 1
                    (initial_pstate [''courses_extracted.json'' \<mapsto> ''[1]''])))
        ''courses_extracted.json'' = Some ''{''
   \<and> \<not> kill_as_claimed no_json_env [] ''courses.pdf'' ''courses_extracted.json'' 1 1
          (initial_pstate [''courses_extracted.json'' \<mapsto> ''[1]'']) 1"
  by code_simp

section \<open>The duplicate filter of the Kauai crawler\<close>

lemma add_course_inv: "kauai_inv st \<Longrightarrow> kauai_inv (add_course c st)"
  by (auto simp: kauai_inv_def add_course_def)

lemma fold_add_course_inv: "kauai_inv st \<Longrightarrow> kauai_inv (fold add_course cs st)"
  by (induction cs arbitrary: st) (simp_all add: add_course_inv)

lemma visit_departments_inv: "kauai_inv st \<Longrightarrow> kauai_inv (visit_departments w ds st)"
proof (induction ds arbitrary: st)
  case Nil
  then show ?case by simp
next
  case (Cons d ds)
  then show ?case
    using fold_add_course_inv by (simp split: sum.splits)
qed

lemma note_link_inv: "kauai_inv (snd acc) \<Longrightarrow> kauai_inv (snd (note_link l acc))"
  by (cases l; cases acc) (simp add: note_link_def kauai_inv_def)

lemma fold_note_link_inv: "kauai_inv (snd acc) \<Longrightarrow> kauai_inv (snd (fold note_link ls acc))"
  by (induction ls arbitrary: acc) (simp_all add: note_link_inv)

lemma kauai_page_inv: "kauai_inv (kauai_page w p st)" if "kauai_inv st"
proof (cases "catalog_links w p")
  case None
  then show ?thesis using that by (simp add: kauai_page_def)
next
  case (Some ls)
  obtain ds st1 where f: "fold note_link ls ([], st) = (ds, st1)"
    by (cases "fold note_link ls ([], st)")
  from fold_note_link_inv[of "([], st)" ls] that f have "kauai_inv st1" by simp
  then show ?thesis using Some f by (simp add: kauai_page_def visit_departments_inv)
qed

lemma fold_kauai_page_inv: "kauai_inv st \<Longrightarrow> kauai_inv (fold (kauai_page w) ps st)"
  by (induction ps arbitrary: st) (simp_all add: kauai_page_inv)

lemma kauai_crawl_unique:
  "distinct (map kauai_key (kauai_courses (fst (kauai_crawl_courses w out a b fs))))"
proof -
  have "kauai_inv \<lparr>kauai_courses = [], visited_dept_urls = {}, seen_courses = {}\<rparr>"
    by (simp add: kauai_inv_def)
  from fold_kauai_page_inv[OF this] show ?thesis
    by (simp add: kauai_crawl_courses_def Let_def kauai_inv_def)
qed

lemma kauai_keys_distinct:
  assumes "distinct (map kauai_key cs)"
  shows "distinct (map kauai_written_key cs)"
proof -
  have k: "kauai_key c = fst (kauai_written_key c) @ ''-'' @ snd (kauai_written_key c)" for c
    by (simp add: kauai_key_def kauai_written_key_def)
  have "inj_on kauai_written_key (set cs)"
  proof (rule inj_onI)
    fix x y assume xy: "x \<in> set cs" "y \<in> set cs" "kauai_written_key x = kauai_written_key y"
    from xy(3) have "kauai_key x = kauai_key y" by (simp only: k)
    moreover from assms have "inj_on kauai_key (set cs)" by (simp add: distinct_map)
    ultimately show "x = y" using xy(1,2) by (rule_tac inj_onD)
  qed
  with assms show ?thesis by (simp add: distinct_map)
qed

lemma fold_add_course_first:
  "kauai_courses (fold add_course cs st)
     = kauai_courses st
       @ first_of_each_key kauai_key (filter (\<lambda>c. kauai_key c \<notin> seen_courses st) cs)"
proof (induction cs arbitrary: st)
  case Nil
  show ?case by simp
next
  case (Cons c cs)
  show ?case
  proof (cases "kauai_key c \<in> seen_courses st")
    case True
    with Cons.IH[of st] show ?thesis by (simp add: add_course_def)
  next
    case False
    have f: "filter (\<lambda>d. kauai_key d \<noteq> kauai_key c)
               (filter (\<lambda>c. kauai_key c \<notin> seen_courses st) cs)
             = filter (\<lambda>d. kauai_key d \<notin> insert (kauai_key c) (seen_courses st)) cs"
      by (induction cs) auto
    from False Cons.IH[of "add_course c st"] f show ?thesis
      by (simp add: add_course_def)
  qed
qed

lemma kauai_crawl_file:
  "snd (kauai_crawl_courses w out a b fs)
     = (case kauai_save_ends w of
          Open_raises \<Rightarrow> fs
        | Dump_raises k \<Rightarrow>
            fs(out \<mapsto> concat (take k (kauai_dump w
                 (kauai_courses (fst (kauai_crawl_courses w out a b fs))))))
        | Completes \<Rightarrow>
            fs(out \<mapsto> concat (kauai_dump w
                 (kauai_courses (fst (kauai_crawl_courses w out a b fs))))))"
  by (simp add: kauai_crawl_courses_def Let_def run_write_ops stopped_after_Suc
        split: save_end.splits)

lemma upper_of_lower:
  "\<not> lower_case_letter c \<Longrightarrow>
   (case map_of (zip ''abcdefghijklmnopqrstuvwxyz'' ''ABCDEFGHIJKLMNOPQRSTUVWXYZ'') (lower_char c) of
      None \<Rightarrow> lower_char c | Some u \<Rightarrow> u) = c"
  by (simp add: lower_char_def lower_case_letter_def)

lemma lower_char_inj:
  assumes "\<not> lower_case_letter c" "\<not> lower_case_letter d" "lower_char c = lower_char d"
  shows "c = d"
proof -
  note a = upper_of_lower[OF assms(1), unfolded assms(3)]
  note b = upper_of_lower[OF assms(2)]
  from a b show ?thesis by (rule trans[OF sym])
qed

lemma ascii_lower_inj:
  "upper_cased s \<Longrightarrow> upper_cased t \<Longrightarrow> ascii_lower s = ascii_lower t \<Longrightarrow> s = t"
proof (induction s arbitrary: t)
  case Nil
  then show ?case by (simp add: ascii_lower_def)
next
  case (Cons c s)
  then obtain d t' where t: "t = d # t'" by (cases t) (auto simp: ascii_lower_def)
  with Cons.prems have "lower_char c = lower_char d" "ascii_lower s = ascii_lower t'"
    "\<not> lower_case_letter c" "\<not> lower_case_letter d" "upper_cased s" "upper_cased t'"
    by (simp_all add: ascii_lower_def upper_cased_def)
  with Cons.IH[of t'] lower_char_inj[of c d] t show ?case by simp
qed

lemma kauai_natural_keys_distinct:
  assumes "distinct (map kauai_written_key cs)" and "list_all upper_coded cs"
  shows "distinct (map kauai_natural_key cs)"
proof -
  have "inj_on kauai_natural_key (set cs)"
  proof (rule inj_onI)
    fix x y assume xy: "x \<in> set cs" "y \<in> set cs" "kauai_natural_key x = kauai_natural_key y"
    from xy(1,2) assms(2) have u: "upper_coded x" "upper_coded y"
      by (simp_all add: list_all_iff)
    from xy(3) have "ascii_lower (course_prefix x) = ascii_lower (course_prefix y)"
      "ascii_lower (course_number x) = ascii_lower (course_number y)"
      by (simp_all add: kauai_natural_key_def)
    with u have "course_prefix x = course_prefix y" "course_number x = course_number y"
      by (auto simp: upper_coded_def intro: ascii_lower_inj)
    then have "kauai_written_key x = kauai_written_key y"
      by (simp add: kauai_written_key_def)
    moreover from assms(1) have "inj_on kauai_written_key (set cs)" by (simp add: distinct_map)
    ultimately show "x = y" using xy(1,2) by (rule_tac inj_onD)
  qed
  moreover from assms(1) have "distinct cs" by (simp add: distinct_map)
  ultimately show ?thesis by (simp add: distinct_map)
qed

lemma demo_kauai_facts:
  "kauai_courses (fst demo_kauai)
     = [kauai_course_of ''ACC'' ''124'' ''Introduction to Accounting'',
        kauai_course_of ''ACC'' ''125'' ''Managerial Accounting'',
        kauai_course_of ''BUS'' ''120'' ''Principles of Business'']"
  "list_all upper_coded (kauai_courses (fst demo_kauai))"
  "snd demo_kauai ''kauai_courses.json'' = Some ''[]''"
  by code_simp+


section \<open>The log of the Manoa crawler\<close>

lemma completed_urls_append [simp]:
  "completed_urls (xs @ ys) = completed_urls xs @ completed_urls ys"
  by (simp add: completed_urls_def map_filter_def)

lemma submitted_urls_append [simp]:
  "submitted_urls (xs @ ys) = submitted_urls xs @ submitted_urls ys"
  by (simp add: submitted_urls_def map_filter_def)

lemma urls_Nil [simp]: "completed_urls [] = []" "submitted_urls [] = []"
  by (simp_all add: completed_urls_def submitted_urls_def map_filter_def)

lemma urls_Cons [simp]:
  "completed_urls (e # es) = (case completed_url e of None \<Rightarrow> [] | Some u \<Rightarrow> [u]) @ completed_urls es"
  "submitted_urls (e # es) = (case submitted_url e of None \<Rightarrow> [] | Some u \<Rightarrow> [u]) @ submitted_urls es"
  by (simp_all add: completed_urls_def submitted_urls_def map_filter_def split: option.splits)

lemma urls_Submitted [simp]:
  "submitted_urls (map Submitted us) = us" "completed_urls (map Submitted us) = []"
  by (induction us) simp_all

lemma printed_cases:
  "snd (extract_single_course w u) = [] \<or> snd (extract_single_course w u) = [Error_extracting u]"
  by (auto simp: extract_single_course_def Let_def split: option.splits sum.splits)

lemma unit_events_urls [simp]:
  "completed_urls (unit_events w u) = [u]" "submitted_urls (unit_events w u) = []"
  using printed_cases[of w u]
  by (cases "extract_single_course w u"; auto simp: unit_events_def split: sum.splits option.splits)+

lemma unit_raises_logged:
  "unit_raises w u \<Longrightarrow>
   unit_records w u = []
   \<and> (Error_processing u \<in> set (unit_events w u) \<or> Error_extracting u \<in> set (unit_events w u))"
  by (auto simp: unit_raises_def unit_records_def unit_events_def extract_single_course_def
        Let_def split: option.splits sum.splits if_splits)

lemma crawl_extends_refl: "crawl_extends w st [] [] st"
  by (simp add: crawl_extends_def)

lemma crawl_extends_trans:
  assumes "crawl_extends w st s1 c1 st1" and "crawl_extends w st1 s2 c2 st2"
  shows "crawl_extends w st (s1 @ s2) (c1 @ c2) st2"
proof -
  from assms(1) obtain e1 where e1: "crawl_log st1 = crawl_log st @ e1"
    "submitted_urls e1 = s1" "completed_urls e1 = c1"
    "\<forall>u\<in>set c1. set (unit_events w u) \<subseteq> set e1"
    "all_extracted st1 = all_extracted st @ concat (map (unit_records w) c1)"
    "visited_courses st \<subseteq> visited_courses st1"
    "visited_courses st1 \<subseteq> visited_courses st \<union> set c1"
    unfolding crawl_extends_def by blast
  from assms(2) obtain e2 where e2: "crawl_log st2 = crawl_log st1 @ e2"
    "submitted_urls e2 = s2" "completed_urls e2 = c2"
    "\<forall>u\<in>set c2. set (unit_events w u) \<subseteq> set e2"
    "all_extracted st2 = all_extracted st1 @ concat (map (unit_records w) c2)"
    "visited_courses st1 \<subseteq> visited_courses st2"
    "visited_courses st2 \<subseteq> visited_courses st1 \<union> set c2"
    unfolding crawl_extends_def by blast
  show ?thesis
    unfolding crawl_extends_def
  proof (intro exI[of _ "e1 @ e2"] conjI)
    show "crawl_log st2 = crawl_log st @ e1 @ e2" using e1(1) e2(1) by simp
    show "submitted_urls (e1 @ e2) = s1 @ s2" using e1(2) e2(2) by simp
    show "completed_urls (e1 @ e2) = c1 @ c2" using e1(3) e2(3) by simp
    show "\<forall>u\<in>set (c1 @ c2). set (unit_events w u) \<subseteq> set (e1 @ e2)"
      using e1(4) e2(4) by auto
    show "all_extracted st2 = all_extracted st @ concat (map (unit_records w) (c1 @ c2))"
      using e1(5) e2(5) by simp
    show "visited_courses st \<subseteq> visited_courses st2" using e1(6) e2(6) by blast
    show "visited_courses st2 \<subseteq> visited_courses st \<union> set (c1 @ c2)"
      using e1(7) e2(7) by auto
  qed
qed

lemma save_to_json_extends: "crawl_extends w st [] [] (save_to_json w data out st)"
  by (simp add: crawl_extends_def save_to_json_def split: save_end.splits)


lemma printed_urls:
  "extract_single_course w u = (r, printed) \<Longrightarrow>
   submitted_urls printed = [] \<and> completed_urls printed = []"
  using printed_cases[of w u] by auto

lemma handle_completed_extends:
  assumes "handle_completed w out bs n u ((c, b), st) = (cb', st')"
  shows "crawl_extends w st [] [u] st'"
proof -
  obtain r printed where x: "extract_single_course w u = (r, printed)"
    by (cases "extract_single_course w u")
  note pu = printed_urls[OF x]
  define st0 where "st0 = st\<lparr>total_course_count := total_course_count st + 1\<rparr>"
  show ?thesis
  proof (cases r)
    case (Inl e)
    with assms x have "st' = st0\<lparr>crawl_log := crawl_log st0 @ printed @ [Error_processing u]\<rparr>"
      by (simp add: handle_completed_def Let_def st0_def)
    then show ?thesis
      using x Inl pu
      by (auto simp: crawl_extends_def st0_def unit_events_def unit_records_def
            intro!: exI[of _ "printed @ [Error_processing u]"])
  next
    case (Inr parsed)
    define st2 where "st2 =
      (case parsed of
         Some c0 \<Rightarrow> st0\<lparr>all_extracted := all_extracted st0 @ [c0],
                        crawl_log := crawl_log st0 @ printed @ [Extracted u],
                        visited_courses := insert u (visited_courses st0)\<rparr>
       | None \<Rightarrow> st0\<lparr>crawl_log := crawl_log st0 @ printed @ [Failed_to_parse u],
                      visited_courses := insert u (visited_courses st0)\<rparr>)"
    have e2: "crawl_extends w st [] [u] st2"
      using x Inr pu
      by (cases parsed)
         (auto simp: crawl_extends_def st0_def st2_def unit_events_def unit_records_def
            intro!: exI[of _ "printed @ [Extracted u]"] exI[of _ "printed @ [Failed_to_parse u]"])
    have "st' = st2 \<or> st' = save_to_json w (all_extracted st2) out st2"
      using assms x Inr
      by (cases parsed)
         (auto simp: handle_completed_def Let_def st0_def st2_def split: if_splits)
    then show ?thesis
    proof
      assume "st' = st2"
      with e2 show ?thesis by simp
    next
      assume "st' = save_to_json w (all_extracted st2) out st2"
      with crawl_extends_trans[OF e2 save_to_json_extends[of w st2 "all_extracted st2" out]]
      show ?thesis by simp
    qed
  qed
qed

lemma fold_handle_completed_extends:
  "fold (handle_completed w out bs n) us (cb, st) = (cb', st') \<Longrightarrow> crawl_extends w st [] us st'"
proof (induction us arbitrary: cb st)
  case Nil
  then show ?case by (simp add: crawl_extends_refl)
next
  case (Cons u us)
  obtain c b where cb: "cb = (c, b)" by (cases cb)
  obtain cb1 st1 where h: "handle_completed w out bs n u ((c, b), st) = (cb1, st1)"
    by (cases "handle_completed w out bs n u ((c, b), st)")
  with Cons.prems cb have "fold (handle_completed w out bs n) us (cb1, st1) = (cb', st')"
    by simp
  from crawl_extends_trans[OF handle_completed_extends[OF h] Cons.IH[OF this]]
  show ?case by simp
qed

lemma crawl_page_extends:
  "\<exists>subs comps. crawl_extends w st subs comps (crawl_page w base out bs p st)
      \<and> mset comps = mset subs
      \<and> (\<forall>hrefs. catalog_hrefs w p = Some hrefs
            \<longrightarrow> set subs = set (new_links base hrefs (visited_courses st)))"
proof (cases "catalog_hrefs w p")
  case None
  then have "crawl_extends w st [] [] (crawl_page w base out bs p st)"
    by (simp add: crawl_page_def crawl_extends_def)
  with None show ?thesis by (intro exI[of _ "[]"]) simp
next
  case (Some hrefs)
  define links where "links = new_links base hrefs (visited_courses st)"
  show ?thesis
  proof (cases "links = []")
    case True
    with Some have "crawl_page w base out bs p st = st"
      by (simp add: crawl_page_def links_def new_links_def)
    with True Some show ?thesis
      by (intro exI[of _ "[]"]) (simp add: crawl_extends_refl links_def)
  next
    case False
    define urls where "urls = sort_key (set_position w) links"
    define st1 where "st1 = st\<lparr>crawl_log := crawl_log st @ map Submitted urls\<rparr>"
    have s1: "crawl_extends w st urls [] st1"
      by (simp add: crawl_extends_def st1_def)
    obtain cb' st' where f: "fold (handle_completed w out bs (length urls))
        (sort_key (finish_time w) urls) ((0, []), st1) = (cb', st')"
      by (cases "fold (handle_completed w out bs (length urls))
        (sort_key (finish_time w) urls) ((0, []), st1)")
    have "crawl_page w base out bs p st = st'"
      using Some False f
      by (simp add: crawl_page_def Let_def links_def[unfolded new_links_def, symmetric]
            st1_def urls_def)
    with crawl_extends_trans[OF s1 fold_handle_completed_extends[OF f]]
    have "crawl_extends w st urls (sort_key (finish_time w) urls) (crawl_page w base out bs p st)"
      by simp
    then show ?thesis using Some
      by (intro exI[of _ urls] exI[of _ "sort_key (finish_time w) urls"])
         (simp add: links_def urls_def)
  qed
qed

lemma fold_crawl_page_extends:
  "\<exists>subs comps. crawl_extends w st subs comps (fold (crawl_page w base out bs) ps st)
      \<and> mset comps = mset subs"
proof (induction ps arbitrary: st)
  case Nil
  show ?case by (intro exI[of _ "[]"]) (simp add: crawl_extends_refl)
next
  case (Cons p ps)
  from crawl_page_extends[of w st base out bs p]
  obtain s1 c1 where 1: "crawl_extends w st s1 c1 (crawl_page w base out bs p st)"
    "mset c1 = mset s1" by blast
  from Cons.IH[of "crawl_page w base out bs p st"]
  obtain s2 c2 where 2: "crawl_extends w (crawl_page w base out bs p st) s2 c2
      (fold (crawl_page w base out bs) ps (crawl_page w base out bs p st))"
    "mset c2 = mset s2" by blast
  from crawl_extends_trans[OF 1(1) 2(1)] 1(2) 2(2) show ?case
    by (intro exI[of _ "s1 @ s2"] exI[of _ "c1 @ c2"]) simp
qed


lemma crawl_page_discovered:
  assumes "submitted_inv st"
  shows "submitted_inv (crawl_page w base out bs p st)
     \<and> set (submitted_urls (crawl_log st))
          \<subseteq> set (submitted_urls (crawl_log (crawl_page w base out bs p st)))
     \<and> (\<forall>hrefs h. catalog_hrefs w p = Some hrefs \<and> Some h \<in> set hrefs \<and> h \<noteq> []
            \<and> starts_with base h
          \<longrightarrow> h \<in> set (submitted_urls (crawl_log (crawl_page w base out bs p st))))"
proof -
  define st' where "st' = crawl_page w base out bs p st"
  from crawl_page_extends[of w st base out bs p]
  obtain subs comps where x: "crawl_extends w st subs comps st'" "mset comps = mset subs"
    "\<forall>hrefs. catalog_hrefs w p = Some hrefs
       \<longrightarrow> set subs = set (new_links base hrefs (visited_courses st))"
    unfolding st'_def by blast
  from x(1) obtain evs where e: "crawl_log st' = crawl_log st @ evs" "submitted_urls evs = subs"
    "visited_courses st' \<subseteq> visited_courses st \<union> set comps"
    unfolding crawl_extends_def by blast
  from x(2) have sc: "set comps = set subs" by (rule mset_eq_setD)
  have s: "set (submitted_urls (crawl_log st')) = set (submitted_urls (crawl_log st)) \<union> set subs"
    using e(1,2) by simp
  have 1: "submitted_inv st'"
    using assms e(3) sc s unfolding submitted_inv_def by blast
  have 2: "set (submitted_urls (crawl_log st)) \<subseteq> set (submitted_urls (crawl_log st'))"
    using s by blast
  have 3: "h \<in> set (submitted_urls (crawl_log st'))"
    if "catalog_hrefs w p = Some hrefs" "Some h \<in> set hrefs" "h \<noteq> []" "starts_with base h"
    for hrefs h
  proof (cases "h \<in> visited_courses st")
    case True
    with assms 2 show ?thesis unfolding submitted_inv_def by blast
  next
    case False
    from that(2) have "h \<in> set (List.map_filter id hrefs)"
      by (force simp: map_filter_def)
    with that(3,4) False have "h \<in> set (new_links base hrefs (visited_courses st))"
      by (simp add: new_links_def)
    with x(3) that(1) s show ?thesis by simp
  qed
  from 1 2 3 show ?thesis unfolding st'_def by blast
qed

lemma fold_crawl_page_discovered:
  assumes "submitted_inv st"
  shows "set (submitted_urls (crawl_log st))
          \<subseteq> set (submitted_urls (crawl_log (fold (crawl_page w base out bs) ps st)))
     \<and> (\<forall>p hrefs h. p \<in> set ps \<and> catalog_hrefs w p = Some hrefs \<and> Some h \<in> set hrefs
            \<and> h \<noteq> [] \<and> starts_with base h
          \<longrightarrow> h \<in> set (submitted_urls (crawl_log (fold (crawl_page w base out bs) ps st))))"
  using assms
proof (induction ps arbitrary: st)
  case Nil
  show ?case by simp
next
  case (Cons p ps)
  note d = crawl_page_discovered[OF Cons.prems, of w base out bs p]
  from d have i: "submitted_inv (crawl_page w base out bs p st)" by blast
  note ih = Cons.IH[OF i]
  show ?case
  proof (intro conjI allI impI)
    show "set (submitted_urls (crawl_log st))
          \<subseteq> set (submitted_urls (crawl_log (fold (crawl_page w base out bs) (p # ps) st)))"
      using d ih by auto
  next
    fix q hrefs h
    assume a: "q \<in> set (p # ps) \<and> catalog_hrefs w q = Some hrefs \<and> Some h \<in> set hrefs
            \<and> h \<noteq> [] \<and> starts_with base h"
    show "h \<in> set (submitted_urls (crawl_log (fold (crawl_page w base out bs) (p # ps) st)))"
    proof (cases "q = p")
      case True
      with a d have "h \<in> set (submitted_urls (crawl_log (crawl_page w base out bs p st)))"
        by blast
      with ih show ?thesis by auto
    next
      case False
      with a have "q \<in> set ps" by simp
      with a ih show ?thesis by auto
    qed
  qed
qed

lemma demo_crawl_facts:
  "unit_raises demo_crawl_env (course_base @ ''1'')"
  "course_base @ ''1'' \<in> set (submitted_urls (crawl_log demo_crawl))"
  "manoa_save_ends demo_crawl_env (crawl_saves demo_crawl - 1) = Completes"
  "catalog_hrefs demo_crawl_env 1
     = Some [Some (course_base @ ''1''), Some (course_base @ ''2''), Some (course_base @ ''4'')]"
  "starts_with course_base (course_base @ ''4'')"
  "all_extracted demo_crawl = [acc124_at (course_base @ ''2''), acc124_at (course_base @ ''4'')]"
  by code_simp+

section \<open>The final validation loop\<close>

text \<open>
  Claim C4. When the page loop of \<open>extract_courses_from_pdf\<close> ends with a non-empty
  course list, the first round of the final loop evaluates the name
  \<open>validate_and_fix_course\<close>, which the module does not bind; the function ends with
  \<open>NameError\<close>, returning neither \<open>True\<close> nor \<open>False\<close>, in the state the page loop
  left: the final results are never written.
\<close>

theorem final_validation_name_error:
  assumes "api_key w = Some k" and "k \<noteq> []"
    and "extract_text_from_pdf w pdf_path = Some pages_text"
    and "pages_loop w pdf_path output_path (int (length pages_text))
           (zip (map int [1..<Suc (length pages_text)]) pages_text)
           \<lparr>all_courses = [], context_pages = [], recent_courses = []\<rparr> st = (Inr v, st1)"
    and "all_courses v \<noteq> []"
  shows "extract_courses_from_pdf w pdf_path output_path st = (Inl NameError, st1)"
proof -
  have "pages_text \<noteq> []" using assms(4,5) by auto
  with assms show ?thesis
    by (simp add: extract_courses_from_pdf_def final_validation_cases del: upt_Suc)
qed

theorem final_validation_name_error_witness:
  "api_key overlap_env = Some ''key'' \<and> ''key'' \<noteq> []
   \<and> extract_text_from_pdf overlap_env ''courses.pdf''
       = Some [\<lparr>page_number = 1, page_text_of = ''ACC 124 X ACC 125 Y Managerial accounting''\<rparr>,
               \<lparr>page_number = 2, page_text_of = ''Intro to accounting''\<rparr>]
   \<and> (\<exists>v st1.
         pages_loop overlap_env ''courses.pdf'' ''courses_extracted.json'' 2
           [(1, \<lparr>page_number = 1, page_text_of = ''ACC 124 X ACC 125 Y Managerial accounting''\<rparr>),
            (2, \<lparr>page_number = 2, page_text_of = ''Intro to accounting''\<rparr>)]
           \<lparr>all_courses = [], context_pages = [], recent_courses = []\<rparr>
           (initial_pstate Map.empty) = (Inr v, st1)
         \<and> all_courses v \<noteq> []
         \<and> extract_courses_from_pdf overlap_env ''courses.pdf'' ''courses_extracted.json''
             (initial_pstate Map.empty) = (Inl NameError, st1))"
proof -
  have k: "api_key overlap_env = Some ''key''"
    by (simp add: overlap_env_def no_json_env_def)
  have k': "''key'' \<noteq> []" by simp
  obtain v st1 where l: "pages_loop overlap_env ''courses.pdf'' ''courses_extracted.json'' 2
           [(1, \<lparr>page_number = 1, page_text_of = ''ACC 124 X ACC 125 Y Managerial accounting''\<rparr>),
            (2, \<lparr>page_number = 2, page_text_of = ''Intro to accounting''\<rparr>)]
           \<lparr>all_courses = [], context_pages = [], recent_courses = []\<rparr>
           (initial_pstate Map.empty) = (Inr v, st1)"
    and a: "all_courses v = [acc124_partial, acc125]"
    using overlap_run_loop by (auto split: prod.splits sum.splits)
  from a have a': "all_courses v \<noteq> []" by simp
  have z: "zip (map int [1..<Suc (length [p1, p2])]) [p1, p2] = [(1, p1), (2, p2)]"
    for p1 p2 :: page
    by (simp add: upt_rec)
  have l': "pages_loop overlap_env ''courses.pdf'' ''courses_extracted.json''
           (int (length [\<lparr>page_number = 1, page_text_of = ''ACC 124 X ACC 125 Y Managerial accounting''\<rparr>,
               \<lparr>page_number = 2, page_text_of = ''Intro to accounting''\<rparr>]))
           (zip (map int [1..<Suc (length [\<lparr>page_number = 1, page_text_of = ''ACC 124 X ACC 125 Y Managerial accounting''\<rparr>,
               \<lparr>page_number = 2, page_text_of = ''Intro to accounting''\<rparr>])])
              [\<lparr>page_number = 1, page_text_of = ''ACC 124 X ACC 125 Y Managerial accounting''\<rparr>,
               \<lparr>page_number = 2, page_text_of = ''Intro to accounting''\<rparr>])
           \<lparr>all_courses = [], context_pages = [], recent_courses = []\<rparr>
           (initial_pstate Map.empty) = (Inr v, st1)"
    unfolding z using l by simp
  from final_validation_name_error[OF k k' overlap_run_pages l' a'] k l a' overlap_run_pages
  show ?thesis by blast
qed

section \<open>The saved documents\<close>

text \<open>
  Claim C9, as the code has it. The documents a run of \<open>extract_courses_from_pdf\<close>
  saves are, in order, the checkpoints of the pages it has processed whose save completes
  (the save after page \<open>i\<close> is the \<open>i\<close>-th of the run), followed by at most one
  document of the final save, which is written only after the last page. Every document
  has exactly the two members \<open>metadata\<close> and \<open>courses\<close>, and its metadata carries the
  source file, the number \<open>T\<close> of pages, the number of courses and a timestamp. The
  checkpoint saved after page \<open>i\<close> carries that \<open>i\<close> as the number of pages
  processed, and the status \<open>in_progress\<close> when \<open>i < T\<close> and \<open>complete\<close> otherwise;
  the document of the final save carries the status \<open>complete\<close> and no count of the
  pages processed.
\<close>

theorem saved_artifact_format:
  "\<exists>m cps fin.
      artifacts w pdf_path output_path fs = cps @ fin
      \<and> int m \<le> page_count w pdf_path
      \<and> list_all2 (checkpoint_as_claimed w pdf_path (page_count w pdf_path))
           (saved_pages w m) cps
      \<and> list_all (final_as_saved w pdf_path (page_count w pdf_path)) fin
      \<and> length fin \<le> 1
      \<and> (fin = [] \<or> int m = page_count w pdf_path)"
proof -
  from run_writes[of w pdf_path output_path fs]
  obtain m cps fin where ws:
    "writes_of (trace (snd (extract_courses_from_pdf w pdf_path output_path
        (initial_pstate fs)))) = cps @ fin"
    "int m \<le> page_count w pdf_path"
    "list_all2 (loop_write_ok w pdf_path output_path (page_count w pdf_path)) (saved_pages w m) cps"
    "list_all (final_write_ok w pdf_path output_path (page_count w pdf_path)) fin"
    "length fin \<le> 1" "fin = [] \<or> int m = page_count w pdf_path"
    by blast
  from ws(3) have 1: "list_all2 (checkpoint_as_claimed w pdf_path (page_count w pdf_path))
                        (saved_pages w m) (map snd cps)"
    by (auto simp: list_all2_conv_all_nth dest: checkpoint_saved)
  from ws(4) have 2: "list_all (final_as_saved w pdf_path (page_count w pdf_path)) (map snd fin)"
    by (auto simp: list_all_iff dest: final_saved)
  from ws(1) have 3: "artifacts w pdf_path output_path fs = map snd cps @ map snd fin"
    by (simp add: artifacts_def)
  from ws(5,6) have 4: "length (map snd fin) \<le> 1"
    "map snd fin = [] \<or> int m = page_count w pdf_path"
    by simp_all
  from 1 2 3 4 ws(2) show ?thesis by blast
qed

text \<open>
  Claim C9 as stated fails at the final save: in the run in which the service never
  answers with JSON, the last document written has no \<open>pages_processed\<close> member, so it
  is not the checkpoint of any of the pages.
\<close>

theorem final_artifact_counterexample:
  "\<not> list_all (some_checkpoint_as_claimed no_json_env ''courses.pdf''
                 (page_count no_json_env ''courses.pdf''))
       (artifacts no_json_env ''courses.pdf'' ''courses_extracted.json'' Map.empty)
   \<and> (case member (last (artifacts no_json_env ''courses.pdf'' ''courses_extracted.json''
                             Map.empty)) ''metadata'' of
          Some md \<Rightarrow> member md ''pages_processed'' = None
        | None \<Rightarrow> False)"
  by code_simp

section \<open>Overlap courses\<close>

text \<open>
  Claim C1 at the two-page run: the second extraction is given the partial record of
  ACC 124 among its overlap courses and returns the completed record, yet both
  checkpoints hold the partial record (with the empty description) and ACC 125:
  \<open>deduplicate_courses\<close> keeps the first course of a key and drops the update.
\<close>

theorem overlap_update_dropped:
  "generate_content overlap_env 2
     (Extract_prompt \<lparr>page_number = 2, page_text_of = ''Intro to accounting''\<rparr>
        [\<lparr>page_number = 1, page_text_of = ''ACC 124 X ACC 125 Y Managerial accounting''\<rparr>]
        [acc124_partial, acc125] [acc124_partial, acc125]) = Some ''update''
   \<and> json_loads overlap_env (clean_response overlap_env ''update'') = Some (JArr [acc124_complete])
   \<and> Generate
        (Extract_prompt \<lparr>page_number = 2, page_text_of = ''Intro to accounting''\<rparr>
           [\<lparr>page_number = 1, page_text_of = ''ACC 124 X ACC 125 Y Managerial accounting''\<rparr>]
           [acc124_partial, acc125] [acc124_partial, acc125])
       \<in> set (trace (snd (extract_courses_from_pdf overlap_env ''courses.pdf''
                 ''courses_extracted.json'' (initial_pstate Map.empty))))
   \<and> map doc_courses (artifacts overlap_env ''courses.pdf'' ''courses_extracted.json'' Map.empty)
       = [[acc124_partial, acc125], [acc124_partial, acc125]]"
  by code_simp

section \<open>Failing units\<close>

text \<open>
  Claim C6. In every crawl of the Manoa crawler, whatever the units do: every submitted
  unit's future is handled (the completed URLs are the submitted ones, in the order of
  completion); the result list holds exactly the records of the handled units, a unit
  whose renderer or parser raises contributing none; each such unit is named in a
  printed error message; every course link of every catalog page that could be read is
  submitted; and the crawl ends with its final save of the whole result list, which is
  what the output file holds when that save completes. No outcome of a unit ends the
  loop: the crawl is a total function of its inputs.
\<close>

theorem soft_failure_isolation:
  "let fin = crawl_courses w base output_file start_page end_page batch_size fs;
       log = crawl_log fin
   in mset (completed_urls log) = mset (submitted_urls log)
      \<and> all_extracted fin = concat (map (unit_records w) (completed_urls log))
      \<and> (\<forall>u\<in>set (submitted_urls log).
            unit_raises w u \<longrightarrow>
              unit_records w u = []
              \<and> (Error_processing u \<in> set log \<or> Error_extracting u \<in> set log))
      \<and> (\<forall>p hrefs h.
            start_page \<le> p \<and> p \<le> end_page \<and> catalog_hrefs w p = Some hrefs
            \<and> Some h \<in> set hrefs \<and> h \<noteq> [] \<and> starts_with base h
            \<longrightarrow> h \<in> set (submitted_urls log))
      \<and> (\<exists>evs. log = evs @ [if manoa_save_ends w (crawl_saves fin - 1) = Completes
                             then Wrote_file output_file (all_extracted fin) else Save_error])
      \<and> (manoa_save_ends w (crawl_saves fin - 1) = Completes \<longrightarrow>
            crawl_files fin output_file = Some (concat (manoa_dump w (all_extracted fin))))"
proof -
  define st0 where "st0 = \<lparr>visited_courses = {}, all_extracted = [], total_course_count = 0,
                  crawl_files = fs, crawl_saves = 0, crawl_log = []\<rparr>"
  define st where "st = fold (crawl_page w base output_file batch_size) [start_page..end_page] st0"
  define fin where "fin = save_to_json w (all_extracted st) output_file st"
  have fin: "crawl_courses w base output_file start_page end_page batch_size fs = fin"
    by (simp add: crawl_courses_def Let_def fin_def st_def st0_def)
  from fold_crawl_page_extends[of w st0 base output_file batch_size "[start_page..end_page]"]
  obtain subs comps where x: "crawl_extends w st0 subs comps st" "mset comps = mset subs"
    unfolding st_def by blast
  from x(1) obtain evs where e: "crawl_log st = evs" "submitted_urls evs = subs"
    "completed_urls evs = comps" "\<forall>u\<in>set comps. set (unit_events w u) \<subseteq> set evs"
    "all_extracted st = concat (map (unit_records w) comps)"
    unfolding crawl_extends_def by (auto simp: st0_def)
  define last_ev where "last_ev = (if manoa_save_ends w (crawl_saves st) = Completes
                             then Wrote_file output_file (all_extracted st) else Save_error)"
  have l: "crawl_log fin = evs @ [last_ev]" "all_extracted fin = all_extracted st"
    "crawl_saves fin - 1 = crawl_saves st"
    by (simp_all add: fin_def save_to_json_def e(1) last_ev_def split: save_end.splits)
  have lu: "completed_urls (crawl_log fin) = comps" "submitted_urls (crawl_log fin) = subs"
    by (simp_all add: l(1) e last_ev_def)
  have 1: "mset (completed_urls (crawl_log fin)) = mset (submitted_urls (crawl_log fin))"
    using lu x(2) by simp
  have 2: "all_extracted fin = concat (map (unit_records w) (completed_urls (crawl_log fin)))"
    using lu l(2) e(5) by simp
  have 3: "unit_records w u = []
           \<and> (Error_processing u \<in> set (crawl_log fin) \<or> Error_extracting u \<in> set (crawl_log fin))"
    if "u \<in> set (submitted_urls (crawl_log fin))" "unit_raises w u" for u
  proof -
    from that(1) lu x(2) have "u \<in> set comps" by (metis mset_eq_setD)
    with e(4) have "set (unit_events w u) \<subseteq> set (crawl_log fin)" by (auto simp: l(1))
    with unit_raises_logged[OF that(2)] show ?thesis by blast
  qed
  have "submitted_inv st0" by (simp add: submitted_inv_def st0_def)
  from fold_crawl_page_discovered[OF this, of w base output_file batch_size "[start_page..end_page]"]
  have 4: "h \<in> set (submitted_urls (crawl_log fin))"
    if "start_page \<le> p \<and> p \<le> end_page \<and> catalog_hrefs w p = Some hrefs
            \<and> Some h \<in> set hrefs \<and> h \<noteq> [] \<and> starts_with base h" for p hrefs h
  proof -
    from that have "p \<in> set [start_page..end_page]" by simp
    with that
      fold_crawl_page_discovered[OF \<open>submitted_inv st0\<close>, of w base output_file batch_size
        "[start_page..end_page]"]
    have "h \<in> set (submitted_urls (crawl_log st))" unfolding st_def by blast
    then show ?thesis using lu e by simp
  qed
  have 5: "\<exists>evs. crawl_log fin = evs @ [if manoa_save_ends w (crawl_saves fin - 1) = Completes
                             then Wrote_file output_file (all_extracted fin) else Save_error]"
    using l by (auto simp: last_ev_def)
  have 6: "crawl_files fin output_file = Some (concat (manoa_dump w (all_extracted fin)))"
    if "manoa_save_ends w (crawl_saves fin - 1) = Completes"
    using that l(3) by (simp add: fin_def save_to_json_def run_write_ops)
  from 1 2 3 4 5 6 show ?thesis
    unfolding fin Let_def by blast
qed

theorem soft_failure_isolation_witness:
  "unit_raises demo_crawl_env (course_base @ ''1'')
   \<and> course_base @ ''1'' \<in> set (submitted_urls (crawl_log demo_crawl))
   \<and> unit_records demo_crawl_env (course_base @ ''1'') = []
   \<and> (Error_processing (course_base @ ''1'') \<in> set (crawl_log demo_crawl)
        \<or> Error_extracting (course_base @ ''1'') \<in> set (crawl_log demo_crawl))
   \<and> all_extracted demo_crawl = [acc124_at (course_base @ ''2''), acc124_at (course_base @ ''4'')]
   \<and> catalog_hrefs demo_crawl_env 1
       = Some [Some (course_base @ ''1''), Some (course_base @ ''2''), Some (course_base @ ''4'')]
   \<and> course_base @ ''4'' \<in> set (submitted_urls (crawl_log demo_crawl))
   \<and> manoa_save_ends demo_crawl_env (crawl_saves demo_crawl - 1) = Completes
   \<and> crawl_files demo_crawl ''extracted_courses.json''
       = Some (concat (manoa_dump demo_crawl_env (all_extracted demo_crawl)))"
proof -
  note t = soft_failure_isolation
             [of demo_crawl_env course_base "''extracted_courses.json''" 0 2 50 Map.empty,
              unfolded Let_def, folded demo_crawl_def]
  from t demo_crawl_facts(1,2)
  have a: "unit_records demo_crawl_env (course_base @ ''1'') = []
           \<and> (Error_processing (course_base @ ''1'') \<in> set (crawl_log demo_crawl)
                \<or> Error_extracting (course_base @ ''1'') \<in> set (crawl_log demo_crawl))"
    by blast
  have "(0::int) \<le> 1 \<and> (1::int) \<le> 2
        \<and> catalog_hrefs demo_crawl_env 1
           = Some [Some (course_base @ ''1''), Some (course_base @ ''2''), Some (course_base @ ''4'')]
        \<and> Some (course_base @ ''4'')
           \<in> set [Some (course_base @ ''1''), Some (course_base @ ''2''), Some (course_base @ ''4'')]
        \<and> course_base @ ''4'' \<noteq> [] \<and> starts_with course_base (course_base @ ''4'')"
    using demo_crawl_facts(4,5) by simp
  with t have b: "course_base @ ''4'' \<in> set (submitted_urls (crawl_log demo_crawl))"
    by blast
  from t demo_crawl_facts(3)
  have c: "crawl_files demo_crawl ''extracted_courses.json''
       = Some (concat (manoa_dump demo_crawl_env (all_extracted demo_crawl)))"
    by blast
  from a b c demo_crawl_facts show ?thesis by blast
qed

section \<open>The visited set\<close>

text \<open>
  Claim C7 at the example crawl: the worker for course 1 raises before its \<open>try\<close>, so
  the round that handles its future skips \<open>visited_courses.add\<close>, and the link to
  course 1 on the next catalog page is submitted again: the URL is dispatched twice.
\<close>

theorem unvisited_url_dispatched_twice:
  "\<not> chrome_starts demo_crawl_env (course_base @ ''1'')
   \<and> submitted_urls (crawl_log demo_crawl)
       = [course_base @ ''1'', course_base @ ''2'', course_base @ ''3'',
          course_base @ ''1'', course_base @ ''4'']
   \<and> count_list (submitted_urls (crawl_log demo_crawl)) (course_base @ ''1'') = 2"
  by code_simp

section \<open>One record per key\<close>

text \<open>
  Claim C2, as the code has it. \<open>deduplicate_courses\<close> keeps the first course of
  every key string \<open>course_prefix-course_number\<close> and drops the later ones (it raises
  on a course that is no dict), comparing the strings as they are; so every document a
  run of the PDF extractor saves holds courses with pairwise different key strings, and
  so with pairwise different pairs of prefix and number as they are written. The filter
  of the Kauai crawler does the same with every department's courses, so the course
  list of the crawl holds pairwise different key strings and pairs; when no prefix and
  no number in it holds a lower-case letter, its case-normalized natural keys are
  pairwise different too. That list is what the one save of the crawl writes to the
  output file when the save completes.
\<close>

theorem committed_keys_unique:
  "list_all (\<lambda>d. distinct (map (course_key w) (doc_courses d)))
     (artifacts w pdf_path output_path fs)
   \<and> list_all (\<lambda>d. distinct (map written_key (doc_courses d)))
       (artifacts w pdf_path output_path fs)
   \<and> deduplicate_courses w cs
       = (if list_all is_dict cs then Inr (first_of_each_key (course_key w) cs)
          else Inl AttributeError)
   \<and> distinct (map kauai_key
        (kauai_courses (fst (kauai_crawl_courses kw kauai_output start_page end_page kfs))))
   \<and> distinct (map kauai_written_key
        (kauai_courses (fst (kauai_crawl_courses kw kauai_output start_page end_page kfs))))
   \<and> (list_all upper_coded
         (kauai_courses (fst (kauai_crawl_courses kw kauai_output start_page end_page kfs)))
       \<longrightarrow> distinct (map kauai_natural_key
             (kauai_courses (fst (kauai_crawl_courses kw kauai_output start_page end_page kfs)))))
   \<and> kauai_courses (fold add_course dept_courses kst)
       = kauai_courses kst
         @ first_of_each_key kauai_key
             (filter (\<lambda>c. kauai_key c \<notin> seen_courses kst) dept_courses)
   \<and> snd (kauai_crawl_courses kw kauai_output start_page end_page kfs)
       = (case kauai_save_ends kw of
            Open_raises \<Rightarrow> kfs
          | Dump_raises k \<Rightarrow>
              kfs(kauai_output \<mapsto> concat (take k (kauai_dump kw
                 (kauai_courses (fst (kauai_crawl_courses kw kauai_output start_page end_page
                                        kfs))))))
          | Completes \<Rightarrow>
              kfs(kauai_output \<mapsto> concat (kauai_dump kw
                 (kauai_courses (fst (kauai_crawl_courses kw kauai_output start_page end_page
                                        kfs))))))"
  using pdf_artifacts_unique_keys[of w pdf_path output_path fs]
    pdf_artifacts_unique_pairs[of w pdf_path output_path fs]
    deduplicate_courses_first[of w cs]
    kauai_crawl_unique[of kw kauai_output start_page end_page kfs]
    kauai_keys_distinct[OF kauai_crawl_unique[of kw kauai_output start_page end_page kfs]]
    kauai_natural_keys_distinct
      [OF kauai_keys_distinct[OF kauai_crawl_unique[of kw kauai_output start_page end_page kfs]]]
    fold_add_course_first[of dept_courses kst]
    kauai_crawl_file[of kw kauai_output start_page end_page kfs]
  by simp

theorem committed_keys_unique_witness:
  "list_all upper_coded (kauai_courses (fst demo_kauai))
   \<and> kauai_courses (fst demo_kauai)
       = [kauai_course_of ''ACC'' ''124'' ''Introduction to Accounting'',
          kauai_course_of ''ACC'' ''125'' ''Managerial Accounting'',
          kauai_course_of ''BUS'' ''120'' ''Principles of Business'']
   \<and> distinct (map kauai_natural_key (kauai_courses (fst demo_kauai)))
   \<and> snd demo_kauai ''kauai_courses.json'' = Some ''[]''"
  using committed_keys_unique
          [where kw = demo_kauai_env and kauai_output = "''kauai_courses.json''"
             and start_page = 0 and end_page = 2 and kfs = Map.empty,
           folded demo_kauai_def]
    demo_kauai_facts
  by simp

text \<open>
  Claim C2 as stated fails. The natural key is case-normalized, and
  \<open>deduplicate_courses\<close> compares the key strings as they are: in the one-page run the
  checkpoint holds both \<open>ACC 124\<close> and \<open>acc 124\<close>. The Manoa crawler filters by URL
  only: in the example crawl two URLs yield ACC 124, and the final save writes both
  records.
\<close>

theorem duplicate_key_counterexample:
  "map doc_courses (artifacts case_env ''courses.pdf'' ''courses_extracted.json'' Map.empty)
     = [[acc124_complete, acc124_lower_case]]
   \<and> natural_key case_env acc124_complete = natural_key case_env acc124_lower_case
   \<and> \<not> list_all (\<lambda>d. distinct (map (natural_key case_env) (doc_courses d)))
         (artifacts case_env ''courses.pdf'' ''courses_extracted.json'' Map.empty)
   \<and> \<not> distinct (map (manoa_natural_key ascii_lower) (all_extracted demo_crawl))
   \<and> last (crawl_log demo_crawl) = Wrote_file ''extracted_courses.json'' (all_extracted demo_crawl)"
  by code_simp

end
